theory Spec2Isabelle
  imports Main "HOL-Library.Word"
begin

section \<open>The casync decoder of \<^verbatim>\<open>system/updated/casync/format.py\<close>\<close>

text \<open>
  A shallow embedding of the index and archive decoders. Python's unbounded integers
  are \<open>int\<close>, a \<^verbatim>\<open>bytes\<close> value is a list of 8-bit words, an exception is a value
  of \<open>error\<close> on the left of a sum, and the \<^verbatim>\<open>io.BytesIO\<close> cursor is passed through
  every decoder and returned with its result. A decoder whose loop may run forever
  returns an \<open>option\<close>, \<open>None\<close> meaning that it does not return.
\<close>

subsection \<open>Bytes, exceptions and the binary cursor\<close>

type_synonym byte = "8 word"

datatype error =
    StructError          \<comment> \<open>\<^verbatim>\<open>struct.error\<close>: the buffer given to \<^verbatim>\<open>struct.unpack\<close> has the wrong size\<close>
  | AssertionError       \<comment> \<open>the \<^verbatim>\<open>assert\<close> on the magic failed\<close>
  | AttributeError       \<comment> \<open>\<^verbatim>\<open>payload.size\<close> on \<^verbatim>\<open>None\<close>\<close>
  | UnicodeDecodeError   \<comment> \<open>\<^verbatim>\<open>bytes.decode("utf-8")\<close> on bytes that are not UTF-8\<close>
  | OverflowError        \<comment> \<open>\<^verbatim>\<open>b.read(size)\<close> with a size that does not fit \<^verbatim>\<open>Py_ssize_t\<close>\<close>
  | ChunkReadError       \<comment> \<open>whatever the chunk reader raises\<close>

record bytesio =
  buf :: "byte list"
  pos :: nat

definition BytesIO :: "byte list \<Rightarrow> bytesio" where
  "BytesIO data = \<lparr>buf = data, pos = 0\<rparr>"

text \<open>
  \<^verbatim>\<open>b.read(size)\<close>: at most \<open>size\<close> bytes from the cursor, fewer when the buffer ends
  first (never padded), everything that is left when \<open>size\<close> is negative. The cursor
  moves by the number of bytes returned.
\<close>

definition read :: "bytesio \<Rightarrow> int \<Rightarrow> byte list \<times> bytesio" where
  "read b n =
     (let avail = drop (pos b) (buf b);
          data = (if n < 0 then avail else take (nat n) avail)
      in (data, b\<lparr>pos := pos b + length data\<rparr>))"

text \<open>The bytes of a little-endian unsigned integer, as \<^verbatim>\<open>struct\<close> reads a \<^verbatim>\<open>Q\<close> field.\<close>

fun le_int :: "byte list \<Rightarrow> int" where
  "le_int [] = 0"
| "le_int (x # xs) = uint x + 256 * le_int xs"

text \<open>
  \<^verbatim>\<open>struct.unpack\<close> with the formats the decoder uses. It raises \<^verbatim>\<open>struct.error\<close>
  unless the buffer has exactly the size of the format.
\<close>

definition field :: "nat \<Rightarrow> byte list \<Rightarrow> int" where
  "field i data = le_int (take 8 (drop (8 * i) data))"

definition unpack_Q :: "byte list \<Rightarrow> error + int" where
  "unpack_Q data = (if length data \<noteq> 8 then Inl StructError else Inr (field 0 data))"

definition unpack_QQ :: "byte list \<Rightarrow> error + int \<times> int" where
  "unpack_QQ data =
     (if length data \<noteq> 16 then Inl StructError else Inr (field 0 data, field 1 data))"

definition unpack_QQQQ :: "byte list \<Rightarrow> error + int \<times> int \<times> int \<times> int" where
  "unpack_QQQQ data =
     (if length data \<noteq> 32 then Inl StructError
      else Inr (field 0 data, field 1 data, field 2 data, field 3 data))"

definition unpack_QQQQQQ :: "byte list \<Rightarrow> error + int \<times> int \<times> int \<times> int \<times> int \<times> int" where
  "unpack_QQQQQQ data =
     (if length data \<noteq> 48 then Inl StructError
      else Inr (field 0 data, field 1 data, field 2 data, field 3 data, field 4 data,
                field 5 data))"

subsection \<open>Constants\<close>

definition CA_FORMAT_TABLE_TAIL_MARKER :: int where
  "CA_FORMAT_TABLE_TAIL_MARKER = 0xe75b9e112f17417"

definition CA_HEADER_LEN :: int where "CA_HEADER_LEN = 32"

definition CA_TABLE_HEADER_LEN :: int where "CA_TABLE_HEADER_LEN = 16"

definition CA_TABLE_ENTRY_LEN :: int where "CA_TABLE_ENTRY_LEN = 40"

definition CA_TABLE_MIN_LEN :: int where
  "CA_TABLE_MIN_LEN = CA_TABLE_HEADER_LEN + CA_TABLE_ENTRY_LEN"

definition CA_FORMAT_INDEX :: int where "CA_FORMAT_INDEX = 0x96824d9c7b129ff9"

definition CA_FORMAT_TABLE :: int where "CA_FORMAT_TABLE = 0xe75b9e112f17417d"

definition CA_FORMAT_ENTRY :: int where "CA_FORMAT_ENTRY = 0x1396fabcea5bbb51"

definition CA_FORMAT_GOODBYE :: int where "CA_FORMAT_GOODBYE = 0xdfd35c5e8327c403"

definition CA_FORMAT_FILENAME :: int where "CA_FORMAT_FILENAME = 0x6dbb6ebcb3161f0b"

definition CA_FORMAT_PAYLOAD :: int where "CA_FORMAT_PAYLOAD = 0x8b9e1d93d6dcffc9"

definition CA_MAX_FILENAME_SIZE :: nat where "CA_MAX_FILENAME_SIZE = 256"

subsection \<open>Headers\<close>

text \<open>The fields \<^verbatim>\<open>size\<close> and \<^verbatim>\<open>type\<close> of \<^verbatim>\<open>CAFormatHeader\<close>.\<close>

record CAFormatHeader =
  size_h :: int
  type_h :: int

text \<open>
  \<^verbatim>\<open>create_header_with_type(MAGIC_TYPE)\<close> returns a class whose \<^verbatim>\<open>from_buffer\<close>
  is this function of \<open>MAGIC_TYPE\<close>. \<open>Inr (None, _)\<close> is Python's \<^verbatim>\<open>return None\<close>.
\<close>

definition MagicCAFormatHeader_from_buffer ::
  "int \<Rightarrow> bytesio \<Rightarrow> error + CAFormatHeader option \<times> bytesio" where
  "MagicCAFormatHeader_from_buffer MAGIC_TYPE b =
     (case read b CA_TABLE_HEADER_LEN of (data, b') \<Rightarrow>
        (case unpack_QQ data of
           Inl e \<Rightarrow> Inl e
         | Inr (len, magic) \<Rightarrow>
             if magic = CA_FORMAT_GOODBYE then Inr (None, b')
             else if magic \<noteq> MAGIC_TYPE then Inl AssertionError
             else Inr (Some \<lparr>size_h = len, type_h = magic\<rparr>, b')))"

definition CAIndexHeader_from_buffer where
  "CAIndexHeader_from_buffer = MagicCAFormatHeader_from_buffer CA_FORMAT_INDEX"

definition CATableHeader_from_buffer where
  "CATableHeader_from_buffer = MagicCAFormatHeader_from_buffer CA_FORMAT_TABLE"

definition CAEntryHeader_from_buffer where
  "CAEntryHeader_from_buffer = MagicCAFormatHeader_from_buffer CA_FORMAT_ENTRY"

definition CAFilenameHeader_from_buffer where
  "CAFilenameHeader_from_buffer = MagicCAFormatHeader_from_buffer CA_FORMAT_FILENAME"

definition CAPayloadHeader_from_buffer where
  "CAPayloadHeader_from_buffer = MagicCAFormatHeader_from_buffer CA_FORMAT_PAYLOAD"

text \<open>The five expected magics for which the source creates a header class.\<close>

definition header_types :: "int list" where
  "header_types =
     [CA_FORMAT_INDEX, CA_FORMAT_TABLE, CA_FORMAT_ENTRY, CA_FORMAT_FILENAME,
      CA_FORMAT_PAYLOAD]"

subsection \<open>The index\<close>

text \<open>\<^verbatim>\<open>CAChunk\<close>; its field \<^verbatim>\<open>length\<close> is \<open>length_c\<close> here.\<close>

record CAChunk =
  sha :: "byte list"
  offset :: int
  length_c :: int

definition CAChunk_from_buffer :: "bytesio \<Rightarrow> int \<Rightarrow> error + CAChunk \<times> bytesio" where
  "CAChunk_from_buffer b last_offset =
     (case read b 8 of (d, b1) \<Rightarrow>
        (case unpack_Q d of
           Inl e \<Rightarrow> Inl e
         | Inr new_offset \<Rightarrow>
             (case read b1 32 of (s, b2) \<Rightarrow>
                Inr (\<lparr>sha = s, offset = last_offset, length_c = new_offset - last_offset\<rparr>,
                     b2))))"

record CaFormatIndex =
  index_header :: "CAFormatHeader option"
  index_flags :: int
  chunk_size_min :: int
  chunk_size_avg :: int
  chunk_size_max :: int

definition CaFormatIndex_from_buffer :: "bytesio \<Rightarrow> error + CaFormatIndex \<times> bytesio" where
  "CaFormatIndex_from_buffer b =
     (case CAIndexHeader_from_buffer b of
        Inl e \<Rightarrow> Inl e
      | Inr (header, b1) \<Rightarrow>
          (case read b1 CA_HEADER_LEN of (d, b2) \<Rightarrow>
             (case unpack_QQQQ d of
                Inl e \<Rightarrow> Inl e
              | Inr (f, mn, av, mx) \<Rightarrow>
                  Inr (\<lparr>index_header = header, index_flags = f, chunk_size_min = mn,
                        chunk_size_avg = av, chunk_size_max = mx\<rparr>, b2))))"

text \<open>
  The loop \<^verbatim>\<open>for _ in range(num_chunks)\<close> of \<^verbatim>\<open>CAIndex.from_buffer\<close>, with the
  number of iterations left, the running \<^verbatim>\<open>offset\<close> and the list \<^verbatim>\<open>chunks\<close>.
\<close>

fun chunks_loop ::
  "nat \<Rightarrow> bytesio \<Rightarrow> int \<Rightarrow> CAChunk list \<Rightarrow> error + CAChunk list \<times> bytesio" where
  "chunks_loop 0 b off chunks = Inr (chunks, b)"
| "chunks_loop (Suc n) b off chunks =
     (case CAChunk_from_buffer b off of
        Inl e \<Rightarrow> Inl e
      | Inr (chunk, b') \<Rightarrow> chunks_loop n b' (off + length_c chunk) (chunks @ [chunk]))"

text \<open>
  \<^verbatim>\<open>num_chunks\<close> as the source computes it from the length of the buffer; \<^verbatim>\<open>//\<close>
  rounds down, as \<open>div\<close> on \<open>int\<close> does.
\<close>

definition num_chunks :: "int \<Rightarrow> int" where
  "num_chunks len = (len - CA_HEADER_LEN - CA_TABLE_MIN_LEN) div CA_TABLE_ENTRY_LEN"

text \<open>
  \<^verbatim>\<open>CAIndex.from_buffer\<close>: the length is taken by seeking to the end, the cursor is
  set back to 0, and \<^verbatim>\<open>range\<close> of a negative number is empty (\<open>nat\<close> of it is 0).
\<close>

definition CAIndex_from_buffer :: "bytesio \<Rightarrow> error + CAChunk list \<times> bytesio" where
  "CAIndex_from_buffer b =
     (let len = int (length (buf b)); b0 = b\<lparr>pos := 0\<rparr> in
      case CaFormatIndex_from_buffer b0 of
        Inl e \<Rightarrow> Inl e
      | Inr (_, b1) \<Rightarrow>
          (case CATableHeader_from_buffer b1 of
             Inl e \<Rightarrow> Inl e
           | Inr (_, b2) \<Rightarrow> chunks_loop (nat (num_chunks len)) b2 0 []))"

subsection \<open>File names\<close>

text \<open>
  A Python \<^verbatim>\<open>str\<close> is a list of code points. \<^verbatim>\<open>bytes.decode("utf-8")\<close> is strict:
  it raises \<^verbatim>\<open>UnicodeDecodeError\<close> on a byte that starts no sequence, on a sequence
  that is cut short or continued by a wrong byte, on an overlong form, on a surrogate
  and beyond U+10FFFF. \<open>lo2\<close> and \<open>hi2\<close> bound the second byte after a given first one.
\<close>

type_synonym str = "nat list"

definition cont :: "byte \<Rightarrow> bool" where
  "cont x = (0x80 \<le> x \<and> x \<le> 0xBF)"

definition lo2 :: "byte \<Rightarrow> byte" where
  "lo2 x = (if x = 0xE0 then 0xA0 else if x = 0xF0 then 0x90 else 0x80)"

definition hi2 :: "byte \<Rightarrow> byte" where
  "hi2 x = (if x = 0xED then 0x9F else if x = 0xF4 then 0x8F else 0xBF)"

definition push :: "nat \<Rightarrow> error + str \<Rightarrow> error + str" where
  "push c r = (case r of Inl e \<Rightarrow> Inl e | Inr s \<Rightarrow> Inr (c # s))"

fun utf8_decode :: "byte list \<Rightarrow> error + str" where
  "utf8_decode [] = Inr []"
| "utf8_decode (x # xs) =
     (if x < 0x80 then push (unat x) (utf8_decode xs)
      else if 0xC2 \<le> x \<and> x \<le> 0xDF then
        (case xs of
           y # r \<Rightarrow>
             if cont y
             then push ((unat x - 0xC0) * 64 + (unat y - 0x80)) (utf8_decode r)
             else Inl UnicodeDecodeError
         | _ \<Rightarrow> Inl UnicodeDecodeError)
      else if 0xE0 \<le> x \<and> x \<le> 0xEF then
        (case xs of
           y # z # r \<Rightarrow>
             if lo2 x \<le> y \<and> y \<le> hi2 x \<and> cont z
             then push ((unat x - 0xE0) * 4096 + (unat y - 0x80) * 64 + (unat z - 0x80))
                    (utf8_decode r)
             else Inl UnicodeDecodeError
         | _ \<Rightarrow> Inl UnicodeDecodeError)
      else if 0xF0 \<le> x \<and> x \<le> 0xF4 then
        (case xs of
           y # z # w # r \<Rightarrow>
             if lo2 x \<le> y \<and> y \<le> hi2 x \<and> cont z \<and> cont w
             then push ((unat x - 0xF0) * 262144 + (unat y - 0x80) * 4096
                        + (unat z - 0x80) * 64 + (unat w - 0x80))
                    (utf8_decode r)
             else Inl UnicodeDecodeError
         | _ \<Rightarrow> Inl UnicodeDecodeError)
      else Inl UnicodeDecodeError)"

record CAFilename =
  filename_header :: CAFormatHeader
  filename :: str

text \<open>
  The loop \<^verbatim>\<open>while len(filename) < CA_MAX_FILENAME_SIZE\<close> of
  \<^verbatim>\<open>CAFilename.from_buffer\<close>. At the end of the buffer \<^verbatim>\<open>b.read(1)\<close> returns the
  empty bytes, which are not \<^verbatim>\<open>b'\x00'\<close> and add nothing to \<^verbatim>\<open>filename\<close>: the
  loop then runs forever, and the result is \<open>None\<close>.
\<close>

partial_function (option) filename_loop ::
  "bytesio \<Rightarrow> byte list \<Rightarrow> (byte list \<times> bytesio) option" where
  "filename_loop b name =
     (if length name < CA_MAX_FILENAME_SIZE then
        (case read b 1 of (c, b') \<Rightarrow>
           if c = [0] then Some (name, b') else filename_loop b' (name @ c))
      else Some (name, b))"

definition CAFilename_from_buffer ::
  "bytesio \<Rightarrow> (error + CAFilename option \<times> bytesio) option" where
  "CAFilename_from_buffer b =
     (case CAFilenameHeader_from_buffer b of
        Inl e \<Rightarrow> Some (Inl e)
      | Inr (None, b1) \<Rightarrow> Some (Inr (None, b1))
      | Inr (Some header, b1) \<Rightarrow>
          (case filename_loop b1 [] of
             None \<Rightarrow> None
           | Some (name, b2) \<Rightarrow>
               (case utf8_decode name of
                  Inl e \<Rightarrow> Some (Inl e)
                | Inr s \<Rightarrow>
                    Some (Inr (Some \<lparr>filename_header = header, filename = s\<rparr>, b2)))))"

subsection \<open>Entries, files and the archive\<close>

record CAEntry =
  entry_header :: "CAFormatHeader option"
  feature_flags :: int
  mode :: int
  flags :: int
  uid :: int
  gid :: int
  mtime :: int

definition CAEntry_from_buffer :: "bytesio \<Rightarrow> error + CAEntry \<times> bytesio" where
  "CAEntry_from_buffer b =
     (case CAEntryHeader_from_buffer b of
        Inl e \<Rightarrow> Inl e
      | Inr (entry, b1) \<Rightarrow>
          (case read b1 (8 * 6) of (d, b2) \<Rightarrow>
             (case unpack_QQQQQQ d of
                Inl e \<Rightarrow> Inl e
              | Inr (ff, md, fl, u, g, mt) \<Rightarrow>
                  Inr (\<lparr>entry_header = entry, feature_flags = ff, mode = md, flags = fl,
                        uid = u, gid = g, mtime = mt\<rparr>, b2))))"

record CAArchive =
  entry :: CAEntry

definition CAArchive_from_buffer :: "bytesio \<Rightarrow> error + CAArchive \<times> bytesio" where
  "CAArchive_from_buffer b =
     (case CAEntry_from_buffer b of
        Inl e \<Rightarrow> Inl e
      | Inr (en, b1) \<Rightarrow> Inr (\<lparr>entry = en\<rparr>, b1))"

text \<open>
  The size given to \<^verbatim>\<open>b.read\<close> is converted to \<^verbatim>\<open>Py_ssize_t\<close>, 64 bits wide
  here: a larger one raises \<^verbatim>\<open>OverflowError\<close>. Only the size of a payload, which
  comes from the buffer, can be that large; the other sizes are small constants.
\<close>

definition PY_SSIZE_T_MAX :: int where
  "PY_SSIZE_T_MAX = 2 ^ 63 - 1"

record CAFile =
  file_filename :: CAFilename
  data :: "byte list"

definition CAFile_from_bytes :: "bytesio \<Rightarrow> (error + CAFile option \<times> bytesio) option" where
  "CAFile_from_bytes b =
     (case CAFilename_from_buffer b of
        None \<Rightarrow> None
      | Some (Inl e) \<Rightarrow> Some (Inl e)
      | Some (Inr (None, b1)) \<Rightarrow> Some (Inr (None, b1))
      | Some (Inr (Some fname, b1)) \<Rightarrow>
          (case CAArchive_from_buffer b1 of
             Inl e \<Rightarrow> Some (Inl e)
           | Inr (_, b2) \<Rightarrow>
               (case CAPayloadHeader_from_buffer b2 of
                  Inl e \<Rightarrow> Some (Inl e)
                | Inr (None, b3) \<Rightarrow> Some (Inl AttributeError)
                | Inr (Some payload, b3) \<Rightarrow>
                    if PY_SSIZE_T_MAX < size_h payload - 16 then Some (Inl OverflowError)
                    else
                      (case read b3 (size_h payload - 16) of (d, b4) \<Rightarrow>
                         Some (Inr (Some \<lparr>file_filename = fname, data = d\<rparr>, b4))))))"

record CATar =
  archive :: CAArchive
  files :: "CAFile list"

text \<open>The loop \<^verbatim>\<open>while True\<close> of \<^verbatim>\<open>CATar.from_bytes\<close>, with the list \<^verbatim>\<open>files\<close>.\<close>

partial_function (option) files_loop ::
  "bytesio \<Rightarrow> CAFile list \<Rightarrow> (error + CAFile list \<times> bytesio) option" where
  "files_loop b fs =
     (case CAFile_from_bytes b of
        None \<Rightarrow> None
      | Some (Inl e) \<Rightarrow> Some (Inl e)
      | Some (Inr (None, b')) \<Rightarrow> Some (Inr (fs, b'))
      | Some (Inr (Some file, b')) \<Rightarrow> files_loop b' (fs @ [file]))"

definition CATar_from_bytes :: "bytesio \<Rightarrow> (error + CATar \<times> bytesio) option" where
  "CATar_from_bytes b =
     (case CAArchive_from_buffer b of
        Inl e \<Rightarrow> Some (Inl e)
      | Inr (ar, b1) \<Rightarrow>
          (case files_loop b1 [] of
             None \<Rightarrow> None
           | Some (Inl e) \<Rightarrow> Some (Inl e)
           | Some (Inr (fs, b2)) \<Rightarrow> Some (Inr (\<lparr>archive = ar, files = fs\<rparr>, b2))))"

subsection \<open>Reassembly\<close>

text \<open>
  \<^verbatim>\<open>b"".join(chunk_reader.read(chunk) for chunk in caidx.chunks)\<close>. The chunk reader
  is not part of this file: it is the parameter \<open>rd\<close>, a method of an object with a
  state \<open>'s\<close> that returns bytes or raises. \<^verbatim>\<open>join\<close> takes the chunks from the
  generator one after the other, so the reader is called in the order of the list, and
  an exception ends the whole expression.
\<close>

fun join_chunks ::
  "('s \<Rightarrow> CAChunk \<Rightarrow> (error + byte list) \<times> 's) \<Rightarrow> 's \<Rightarrow> CAChunk list
     \<Rightarrow> (error + byte list) \<times> 's" where
  "join_chunks rd s [] = (Inr [], s)"
| "join_chunks rd s (c # cs) =
     (case rd s c of
        (Inl e, s') \<Rightarrow> (Inl e, s')
      | (Inr d, s') \<Rightarrow>
          (case join_chunks rd s' cs of
             (Inl e, s'') \<Rightarrow> (Inl e, s'')
           | (Inr ds, s'') \<Rightarrow> (Inr (d @ ds), s'')))"

text \<open>
  \<^verbatim>\<open>parse_caidx\<close>, given the bytes of the index file instead of its path and the
  chunk reader with its state instead of the reader of a fixed directory.
\<close>

definition parse_caidx ::
  "('s \<Rightarrow> CAChunk \<Rightarrow> (error + byte list) \<times> 's) \<Rightarrow> 's \<Rightarrow> byte list
     \<Rightarrow> (error + CATar) option" where
  "parse_caidx rd s caidx_bytes =
     (case CAIndex_from_buffer (BytesIO caidx_bytes) of
        Inl e \<Rightarrow> Some (Inl e)
      | Inr (chunks, _) \<Rightarrow>
          (case join_chunks rd s chunks of
             (Inl e, _) \<Rightarrow> Some (Inl e)
           | (Inr d, _) \<Rightarrow>
               (case CATar_from_bytes (BytesIO d) of
                  None \<Rightarrow> None
                | Some (Inl e) \<Rightarrow> Some (Inl e)
                | Some (Inr (tar, _)) \<Rightarrow> Some (Inr tar))))"

subsection \<open>Observing a buffer\<close>

text \<open>
  What the theorems say about a buffer: the number of bytes from the cursor to the end,
  the cursor moved forward, and the little-endian 64-bit value \<open>k\<close> bytes after the
  cursor (the \<^verbatim>\<open>length\<close> of a header at 0, its \<^verbatim>\<open>magic\<close> at 8).
\<close>

definition remaining :: "bytesio \<Rightarrow> nat" where
  "remaining b = length (buf b) - pos b"

definition advance :: "bytesio \<Rightarrow> nat \<Rightarrow> bytesio" where
  "advance b n = b\<lparr>pos := pos b + n\<rparr>"

definition u64_at :: "bytesio \<Rightarrow> nat \<Rightarrow> int" where
  "u64_at b k = le_int (take 8 (drop (pos b + k) (buf b)))"

text \<open>
  Where the payload of a file is, counted from the bytes alone. \<open>name_len nm\<close> is
  the number of bytes before the first zero byte among the first 256 bytes of \<open>nm\<close>,
  and \<open>name_span nm\<close> the number of bytes that the name takes in the buffer, with its
  terminator if it has one. A file whose file-name header is at position \<open>q\<close> has the
  16 bytes of that header, the name, the 64 bytes of its entry and then its payload
  header, at \<open>payload_pos bs q\<close>.
\<close>

definition name_len :: "byte list \<Rightarrow> nat" where
  "name_len nm = length (takeWhile (\<lambda>x. x \<noteq> 0) (take CA_MAX_FILENAME_SIZE nm))"

definition name_span :: "byte list \<Rightarrow> nat" where
  "name_span nm =
     (if name_len nm < CA_MAX_FILENAME_SIZE then name_len nm + 1 else name_len nm)"

definition payload_pos :: "byte list \<Rightarrow> nat \<Rightarrow> nat" where
  "payload_pos bs q = q + 16 + name_span (drop (q + 16) bs) + 64"

text \<open>
  The file record \<open>file\<close> holds the payload whose header is at position \<open>p\<close> of the
  bytes \<open>bs\<close>: the 16 bytes at \<open>p\<close> carry the payload magic, and the data of the
  record are exactly as many bytes as the length field at \<open>p\<close> says, less 16, those
  right after the 16 bytes of the header.
\<close>

definition payload_at :: "byte list \<Rightarrow> nat \<Rightarrow> CAFile \<Rightarrow> bool" where
  "payload_at bs p file =
     (p + 16 \<le> length bs
      \<and> le_int (take 8 (drop (p + 8) bs)) = CA_FORMAT_PAYLOAD
      \<and> int (length (data file)) = le_int (take 8 (drop p bs)) - 16
      \<and> data file = take (length (data file)) (drop (p + 16) bs))"

text \<open>
  The positions of the payload headers of \<open>n\<close> files that follow each other, the
  file-name header of the first at \<open>q\<close>: a file ends, and the next begins, where the
  length field of its payload header says.
\<close>

fun file_positions :: "byte list \<Rightarrow> nat \<Rightarrow> nat \<Rightarrow> nat list" where
  "file_positions bs q 0 = []"
| "file_positions bs q (Suc n) =
     payload_pos bs q
       # file_positions bs
           (payload_pos bs q + nat (le_int (take 8 (drop (payload_pos bs q) bs)))) n"

text \<open>
  The state of the loop over the files after \<open>n\<close> files have been decoded: the
  cursor and the files so far; \<open>None\<close> if the loop does not get that far.
\<close>

fun loop_state :: "nat \<Rightarrow> bytesio \<Rightarrow> CAFile list \<Rightarrow> (bytesio \<times> CAFile list) option" where
  "loop_state 0 b fs = Some (b, fs)"
| "loop_state (Suc n) b fs =
     (case CAFile_from_bytes b of
        Some (Inr (Some file, b')) \<Rightarrow> loop_state n b' (fs @ [file])
      | _ \<Rightarrow> None)"

text \<open>
  At the cursor there are the 16 bytes of a header whose magic is neither the goodbye
  magic nor the magic \<open>M\<close> that is expected.
\<close>

definition bad_magic :: "int \<Rightarrow> bytesio \<Rightarrow> bool" where
  "bad_magic M b =
     (16 \<le> remaining b \<and> u64_at b 8 \<noteq> CA_FORMAT_GOODBYE \<and> u64_at b 8 \<noteq> M)"

text \<open>
  Entry \<open>i\<close> of the chunk table that starts at the cursor, as a chunk: 40 bytes, the
  cumulative offset in 8 bytes and then the hash in 32; the offset of the chunk is the
  cumulative offset of the entry before (\<open>off\<close> for the first entry) and its length the
  difference of the two.
\<close>

definition table_chunk :: "bytesio \<Rightarrow> int \<Rightarrow> nat \<Rightarrow> CAChunk" where
  "table_chunk b off i =
     \<lparr>sha = take 32 (drop (pos b + 40 * i + 8) (buf b)),
      offset = (if i = 0 then off else u64_at b (40 * (i - 1))),
      length_c = u64_at b (40 * i) - (if i = 0 then off else u64_at b (40 * (i - 1)))\<rparr>"

text \<open>Each chunk of the list begins where the one before it ends, the first at \<open>off\<close>.\<close>

fun contiguous :: "int \<Rightarrow> CAChunk list \<Rightarrow> bool" where
  "contiguous off [] = True"
| "contiguous off (c # cs) = (offset c = off \<and> contiguous (off + length_c c) cs)"

text \<open>
  A chunk reader that keeps a list of its calls: next to the state of \<open>rd\<close> it holds
  the chunks \<open>rd\<close> was called with and the bytes \<open>rd\<close> returned, in the order of
  the calls.
\<close>

definition traced ::
  "('s \<Rightarrow> CAChunk \<Rightarrow> (error + byte list) \<times> 's)
     \<Rightarrow> 's \<times> (CAChunk \<times> byte list) list \<Rightarrow> CAChunk
     \<Rightarrow> (error + byte list) \<times> 's \<times> (CAChunk \<times> byte list) list" where
  "traced rd st c =
     (case st of (s, calls) \<Rightarrow>
        (case rd s c of
           (Inl e, s') \<Rightarrow> (Inl e, (s', calls))
         | (Inr d, s') \<Rightarrow> (Inr d, (s', calls @ [(c, d)]))))"

subsection \<open>Example buffers\<close>

text \<open>
  An archive with one file: the entry of the archive, the header of the name, the name
  \<^verbatim>\<open>a.txt\<close> and the entry of the file (\<open>example_prefix\<close>), then the payload header,
  the five bytes \<^verbatim>\<open>hello\<close> and a header with the goodbye magic. In \<open>example_swapped\<close>
  the payload header carries the magic of a file name; \<open>example_cut\<close> ends inside the
  payload header.
\<close>

definition example_prefix :: "byte list" where
  "example_prefix =
     [64, 0, 0, 0, 0, 0, 0, 0, 0x51, 0xbb, 0x5b, 0xea, 0xbc, 0xfa, 0x96, 0x13]
     @ replicate 48 0
     @ [22, 0, 0, 0, 0, 0, 0, 0, 0x0b, 0x1f, 0x16, 0xb3, 0xbc, 0x6e, 0xbb, 0x6d]
     @ [0x61, 0x2e, 0x74, 0x78, 0x74, 0]
     @ [64, 0, 0, 0, 0, 0, 0, 0, 0x51, 0xbb, 0x5b, 0xea, 0xbc, 0xfa, 0x96, 0x13]
     @ replicate 48 0"

definition example_archive :: "byte list" where
  "example_archive =
     example_prefix
     @ [21, 0, 0, 0, 0, 0, 0, 0, 0xc9, 0xff, 0xdc, 0xd6, 0x93, 0x1d, 0x9e, 0x8b]
     @ [0x68, 0x65, 0x6c, 0x6c, 0x6f]
     @ [16, 0, 0, 0, 0, 0, 0, 0, 0x03, 0xc4, 0x27, 0x83, 0x5e, 0x5c, 0xd3, 0xdf]"

definition example_swapped :: "byte list" where
  "example_swapped =
     example_prefix
     @ [21, 0, 0, 0, 0, 0, 0, 0, 0x0b, 0x1f, 0x16, 0xb3, 0xbc, 0x6e, 0xbb, 0x6d]
     @ [0x68, 0x65, 0x6c, 0x6c, 0x6f]"

definition example_cut :: "byte list" where
  "example_cut = example_prefix @ [21, 0, 0, 0, 0, 0, 0, 0, 0xc9, 0xff, 0xdc]"

text \<open>The payload header declares 21 bytes, and the archive ends after two bytes of data.\<close>

definition example_short :: "byte list" where
  "example_short =
     example_prefix
     @ [21, 0, 0, 0, 0, 0, 0, 0, 0xc9, 0xff, 0xdc, 0xd6, 0x93, 0x1d, 0x9e, 0x8b]
     @ [0x68, 0x65]"

definition example_file :: CAFile where
  "example_file =
     \<lparr>file_filename = \<lparr>filename_header = \<lparr>size_h = 22, type_h = CA_FORMAT_FILENAME\<rparr>,
                        filename = [97, 46, 116, 120, 116]\<rparr>,
      data = [0x68, 0x65, 0x6c, 0x6c, 0x6f]\<rparr>"

definition example_entry :: CAEntry where
  "example_entry =
     \<lparr>entry_header = Some \<lparr>size_h = 64, type_h = CA_FORMAT_ENTRY\<rparr>, feature_flags = 0,
      mode = 0, flags = 0, uid = 0, gid = 0, mtime = 0\<rparr>"

text \<open>
  More archives. \<open>example_one_file\<close> is \<open>example_archive\<close> without its last
  header, and \<open>example_two_files\<close> goes on with a second file, named \<^verbatim>\<open>b\<close>, with
  the three bytes \<^verbatim>\<open>xyz\<close>. In \<open>example_second_swapped\<close> the first file is followed
  by a header with the magic of an entry, and \<open>example_second_cut\<close> ends three bytes
  after the first file. \<open>example_head\<close> is the entry of the archive and the name of
  the first file; after it, where the entry of the file is expected,
  \<open>example_entry_swapped\<close> has a header with the payload magic, and
  \<open>example_entry_cut\<close> ends after three bytes.
\<close>

definition example_one_file :: "byte list" where
  "example_one_file =
     example_prefix
     @ [21, 0, 0, 0, 0, 0, 0, 0, 0xc9, 0xff, 0xdc, 0xd6, 0x93, 0x1d, 0x9e, 0x8b]
     @ [0x68, 0x65, 0x6c, 0x6c, 0x6f]"

definition example_two_files :: "byte list" where
  "example_two_files =
     example_one_file
     @ [18, 0, 0, 0, 0, 0, 0, 0, 0x0b, 0x1f, 0x16, 0xb3, 0xbc, 0x6e, 0xbb, 0x6d]
     @ [0x62, 0]
     @ [64, 0, 0, 0, 0, 0, 0, 0, 0x51, 0xbb, 0x5b, 0xea, 0xbc, 0xfa, 0x96, 0x13]
     @ replicate 48 0
     @ [19, 0, 0, 0, 0, 0, 0, 0, 0xc9, 0xff, 0xdc, 0xd6, 0x93, 0x1d, 0x9e, 0x8b]
     @ [0x78, 0x79, 0x7a]
     @ [16, 0, 0, 0, 0, 0, 0, 0, 0x03, 0xc4, 0x27, 0x83, 0x5e, 0x5c, 0xd3, 0xdf]"

definition example_file_b :: CAFile where
  "example_file_b =
     \<lparr>file_filename = \<lparr>filename_header = \<lparr>size_h = 18, type_h = CA_FORMAT_FILENAME\<rparr>,
                        filename = [98]\<rparr>,
      data = [0x78, 0x79, 0x7a]\<rparr>"

definition example_second_swapped :: "byte list" where
  "example_second_swapped =
     example_one_file
     @ [64, 0, 0, 0, 0, 0, 0, 0, 0x51, 0xbb, 0x5b, 0xea, 0xbc, 0xfa, 0x96, 0x13]"

definition example_second_cut :: "byte list" where
  "example_second_cut = example_one_file @ [22, 0, 0]"

definition example_head :: "byte list" where
  "example_head =
     [64, 0, 0, 0, 0, 0, 0, 0, 0x51, 0xbb, 0x5b, 0xea, 0xbc, 0xfa, 0x96, 0x13]
     @ replicate 48 0
     @ [22, 0, 0, 0, 0, 0, 0, 0, 0x0b, 0x1f, 0x16, 0xb3, 0xbc, 0x6e, 0xbb, 0x6d]
     @ [0x61, 0x2e, 0x74, 0x78, 0x74, 0]"

definition example_entry_swapped :: "byte list" where
  "example_entry_swapped =
     example_head
     @ [64, 0, 0, 0, 0, 0, 0, 0, 0xc9, 0xff, 0xdc, 0xd6, 0x93, 0x1d, 0x9e, 0x8b]
     @ replicate 48 0"

definition example_entry_cut :: "byte list" where
  "example_entry_cut = example_head @ [64, 0, 0]"

text \<open>
  Index files: the index header with the four fields after it, the table header, the
  entries and 40 bytes of a tail. \<open>example_index\<close> has two chunks of 100 and 87 bytes,
  \<open>example_index_empty\<close> none; the cumulative offsets of \<open>example_index_unordered\<close>
  are 16, 8 and 40. \<open>example_index_swapped\<close> has the magic of an entry where the table
  header is expected, and \<open>example_index_cut\<close> ends two bytes into the table header.
\<close>

definition example_index_preamble :: "byte list" where
  "example_index_preamble =
     [48, 0, 0, 0, 0, 0, 0, 0, 0xf9, 0x9f, 0x12, 0x7b, 0x9c, 0x4d, 0x82, 0x96]
     @ [0, 0, 0, 0, 0, 0, 0, 0xb0]
     @ [0, 0x40, 0, 0, 0, 0, 0, 0]
     @ [0, 0, 1, 0, 0, 0, 0, 0]
     @ [0, 0, 4, 0, 0, 0, 0, 0]"

definition example_table_header :: "byte list" where
  "example_table_header =
     [0xff, 0xff, 0xff, 0xff, 0xff, 0xff, 0xff, 0xff,
      0x7d, 0x41, 0x17, 0x2f, 0x11, 0x9e, 0x5b, 0xe7]"

definition example_index :: "byte list" where
  "example_index =
     example_index_preamble @ example_table_header
     @ [100, 0, 0, 0, 0, 0, 0, 0] @ replicate 32 0xaa
     @ [187, 0, 0, 0, 0, 0, 0, 0] @ replicate 32 0xbb
     @ replicate 40 0"

definition example_index_empty :: "byte list" where
  "example_index_empty = example_index_preamble @ example_table_header @ replicate 40 0"

definition example_index_unordered :: "byte list" where
  "example_index_unordered =
     example_index_preamble @ example_table_header
     @ [16, 0, 0, 0, 0, 0, 0, 0] @ replicate 32 0xaa
     @ [8, 0, 0, 0, 0, 0, 0, 0] @ replicate 32 0xbb
     @ [40, 0, 0, 0, 0, 0, 0, 0] @ replicate 32 0xcc
     @ replicate 40 0"

definition example_index_swapped :: "byte list" where
  "example_index_swapped =
     example_index_preamble
     @ [64, 0, 0, 0, 0, 0, 0, 0, 0x51, 0xbb, 0x5b, 0xea, 0xbc, 0xfa, 0x96, 0x13]"

definition example_index_cut :: "byte list" where
  "example_index_cut = example_index_preamble @ [0xff, 0xff]"

text \<open>
  A chunk reader for \<open>example_index\<close>: the two hashes name the first 100 bytes and
  the rest of \<open>example_archive\<close>; its state counts the calls.
\<close>

definition example_reader :: "nat \<Rightarrow> CAChunk \<Rightarrow> (error + byte list) \<times> nat" where
  "example_reader s c =
     (if sha c = replicate 32 0xaa then (Inr (take 100 example_archive), Suc s)
      else if sha c = replicate 32 0xbb then (Inr (drop 100 example_archive), Suc s)
      else (Inl ChunkReadError, Suc s))"

text \<open>
  A chunk reader that serves a chunk as the bytes of \<open>bs\<close> from the chunk's offset
  on, as many as its length; its state counts the calls.
\<close>

definition slice_reader :: "byte list \<Rightarrow> nat \<Rightarrow> CAChunk \<Rightarrow> (error + byte list) \<times> nat" where
  "slice_reader bs s c =
     (Inr (take (nat (length_c c)) (drop (nat (offset c)) bs)), Suc s)"

section \<open>Lemmas\<close>

subsection \<open>Reading from the cursor\<close>

lemma read_enough:
  "0 \<le> n \<Longrightarrow> nat n \<le> remaining b \<Longrightarrow>
   read b n = (take (nat n) (drop (pos b) (buf b)), advance b (nat n))"
  by (simp add: read_def remaining_def advance_def Let_def min_def)

lemma read_short:
  "0 \<le> n \<Longrightarrow> remaining b < nat n \<Longrightarrow>
   read b n = (drop (pos b) (buf b), advance b (remaining b))"
  by (simp add: read_def remaining_def advance_def Let_def)

lemma read_negative:
  "n < 0 \<Longrightarrow> read b n = (drop (pos b) (buf b), advance b (remaining b))"
  by (simp add: read_def remaining_def advance_def Let_def)

lemma buf_advance [simp]: "buf (advance b n) = buf b"
  by (simp add: advance_def)

lemma pos_advance [simp]: "pos (advance b n) = pos b + n"
  by (simp add: advance_def)

lemma advance_advance [simp]: "advance (advance b m) n = advance b (m + n)"
  by (simp add: advance_def add.assoc)

lemma remaining_advance [simp]: "remaining (advance b n) = remaining b - n"
  by (simp add: remaining_def advance_def)

lemma u64_at_advance [simp]: "u64_at (advance b n) k = u64_at b (n + k)"
  by (simp add: u64_at_def add.assoc)

lemma field_window:
  "8 * i + 8 \<le> n \<Longrightarrow>
   field i (take n (drop p xs)) = le_int (take 8 (drop (p + 8 * i) xs))"
  by (simp add: field_def drop_take add.commute min_def)

lemma length_window: "n \<le> remaining b \<Longrightarrow> length (take n (drop (pos b) (buf b))) = n"
  by (simp add: remaining_def)

lemma read_one:
  assumes "0 < remaining b"
  shows "read b 1 = ([buf b ! pos b], advance b 1)"
proof -
  have "pos b < length (buf b)"
    using assms by (simp add: remaining_def)
  then have "take (Suc 0) (drop (pos b) (buf b)) = [buf b ! pos b]"
    by (simp add: take_Suc_conv_app_nth)
  with assms show ?thesis
    by (simp add: read_enough)
qed

lemma read_at_end:
  assumes "remaining b = 0" and "0 \<le> n"
  shows "read b n = ([], b)"
  using assms by (simp add: read_def remaining_def Let_def)

lemma read_result:
  assumes "read b n = (d, b')"
  shows "buf b' = buf b" and "d = take (length d) (drop (pos b) (buf b))"
    and "int (length d) = n \<or> remaining b' = 0"
  using assms by (auto simp: read_def Let_def remaining_def min_def split: if_splits)

lemma le_int_zeros [simp]: "le_int (replicate n 0) = 0"
  by (induction n) simp_all

subsection \<open>The header decoder, case by case\<close>

lemma unpack_QQ_window:
  assumes "16 \<le> remaining b"
  shows "unpack_QQ (take 16 (drop (pos b) (buf b))) = Inr (u64_at b 0, u64_at b 8)"
  unfolding unpack_QQ_def using length_window [OF assms]
  by (simp add: field_window u64_at_def del: length_take)

lemma header_cases:
  "MagicCAFormatHeader_from_buffer M b =
     (if remaining b < 16 then Inl StructError
      else if u64_at b 8 = CA_FORMAT_GOODBYE then Inr (None, advance b 16)
      else if u64_at b 8 \<noteq> M then Inl AssertionError
      else Inr (Some \<lparr>size_h = u64_at b 0, type_h = M\<rparr>, advance b 16))"
proof (cases "remaining b < 16")
  case True
  then have "read b 16 = (drop (pos b) (buf b), advance b (remaining b))"
    by (simp add: read_short)
  moreover have "length (drop (pos b) (buf b)) \<noteq> 16"
    using True by (simp add: remaining_def)
  ultimately show ?thesis
    using True
    by (simp add: MagicCAFormatHeader_from_buffer_def CA_TABLE_HEADER_LEN_def unpack_QQ_def)
next
  case False
  then have "read b 16 = (take 16 (drop (pos b) (buf b)), advance b 16)"
    by (simp add: read_enough)
  with False show ?thesis
    by (simp add: MagicCAFormatHeader_from_buffer_def CA_TABLE_HEADER_LEN_def
        unpack_QQ_window)
qed

lemmas header_from_buffer_defs =
  CAIndexHeader_from_buffer_def CATableHeader_from_buffer_def CAEntryHeader_from_buffer_def
  CAFilenameHeader_from_buffer_def CAPayloadHeader_from_buffer_def

lemmas magic_defs =
  CA_FORMAT_INDEX_def CA_FORMAT_TABLE_def CA_FORMAT_ENTRY_def CA_FORMAT_GOODBYE_def
  CA_FORMAT_FILENAME_def CA_FORMAT_PAYLOAD_def CA_FORMAT_TABLE_TAIL_MARKER_def

lemma bad_magic_header:
  "bad_magic M b \<Longrightarrow> MagicCAFormatHeader_from_buffer M b = Inl AssertionError"
  by (simp add: bad_magic_def header_cases)

subsection \<open>Entries\<close>

lemma unpack_QQQQQQ_window:
  assumes "48 \<le> remaining b"
  shows "unpack_QQQQQQ (take 48 (drop (pos b) (buf b)))
           = Inr (u64_at b 0, u64_at b 8, u64_at b 16, u64_at b 24, u64_at b 32, u64_at b 40)"
  unfolding unpack_QQQQQQ_def using length_window [OF assms]
  by (simp add: field_window u64_at_def del: length_take)

lemma unpack_QQQQ_window:
  assumes "32 \<le> remaining b"
  shows "unpack_QQQQ (take 32 (drop (pos b) (buf b)))
           = Inr (u64_at b 0, u64_at b 8, u64_at b 16, u64_at b 24)"
  unfolding unpack_QQQQ_def using length_window [OF assms]
  by (simp add: field_window u64_at_def del: length_take)

lemma unpack_Q_window:
  assumes "8 \<le> remaining b"
  shows "unpack_Q (take 8 (drop (pos b) (buf b))) = Inr (u64_at b 0)"
  unfolding unpack_Q_def using length_window [OF assms]
  by (simp add: field_window u64_at_def del: length_take)

lemma metadata_cases:
  "(case read b (8 * 6) of (d, b2) \<Rightarrow>
      (case unpack_QQQQQQ d of
         Inl e \<Rightarrow> Inl e
       | Inr (ff, md, fl, u, g, mt) \<Rightarrow>
           Inr (\<lparr>entry_header = h, feature_flags = ff, mode = md, flags = fl,
                 uid = u, gid = g, mtime = mt\<rparr>, b2)))
   = (if remaining b < 48 then Inl StructError
      else Inr (\<lparr>entry_header = h, feature_flags = u64_at b 0, mode = u64_at b 8,
                 flags = u64_at b 16, uid = u64_at b 24, gid = u64_at b 32,
                 mtime = u64_at b 40\<rparr>, advance b 48))"
proof (cases "remaining b < 48")
  case True
  then have "read b 48 = (drop (pos b) (buf b), advance b (remaining b))"
    by (simp add: read_short)
  moreover have "length (drop (pos b) (buf b)) \<noteq> 48"
    using True by (simp add: remaining_def)
  ultimately show ?thesis
    using True by (simp add: unpack_QQQQQQ_def)
next
  case False
  then have "read b 48 = (take 48 (drop (pos b) (buf b)), advance b 48)"
    by (simp add: read_enough)
  with False show ?thesis
    by (simp add: unpack_QQQQQQ_window)
qed

text \<open>The header of an entry as the entry decoder keeps it.\<close>

lemma CAEntry_cases:
  "CAEntry_from_buffer b =
     (if remaining b < 16 then Inl StructError
      else if u64_at b 8 \<noteq> CA_FORMAT_GOODBYE \<and> u64_at b 8 \<noteq> CA_FORMAT_ENTRY
        then Inl AssertionError
      else if remaining b < 64 then Inl StructError
      else Inr (\<lparr>entry_header =
                    (if u64_at b 8 = CA_FORMAT_GOODBYE then None
                     else Some \<lparr>size_h = u64_at b 0, type_h = CA_FORMAT_ENTRY\<rparr>),
                  feature_flags = u64_at b 16, mode = u64_at b 24, flags = u64_at b 32,
                  uid = u64_at b 40, gid = u64_at b 48, mtime = u64_at b 56\<rparr>,
                advance b 64))"
  unfolding CAEntry_from_buffer_def CAEntryHeader_from_buffer_def header_cases metadata_cases
  by (auto simp: metadata_cases)

lemma CAArchive_cases:
  "CAArchive_from_buffer b =
     (case CAEntry_from_buffer b of Inl e \<Rightarrow> Inl e | Inr (en, b1) \<Rightarrow> Inr (\<lparr>entry = en\<rparr>, b1))"
  by (simp add: CAArchive_from_buffer_def)

lemma CAArchive_result:
  assumes "CAArchive_from_buffer b = Inr (a, b')"
  shows "64 \<le> remaining b \<and> b' = advance b 64"
  using assms by (auto simp: CAArchive_cases CAEntry_cases split: if_splits)

subsection \<open>File names\<close>

lemma filename_loop_terminator:
  assumes "k < remaining b" and "buf b ! (pos b + k) = 0"
    and "\<forall>i<k. buf b ! (pos b + i) \<noteq> 0"
    and "length name + k < CA_MAX_FILENAME_SIZE"
  shows "filename_loop b name
           = Some (name @ take k (drop (pos b) (buf b)), advance b (k + 1))"
  using assms
proof (induction k arbitrary: b name)
  case 0
  then show ?case
    by (subst filename_loop.simps) (simp add: read_one)
next
  case (Suc k)
  let ?x = "buf b ! pos b"
  have x: "?x \<noteq> 0"
    using Suc.prems(3) by force
  have r: "read b 1 = ([?x], advance b 1)"
    using Suc.prems(1) by (simp add: read_one)
  have "filename_loop (advance b 1) (name @ [?x])
          = Some ((name @ [?x]) @ take k (drop (pos (advance b 1)) (buf (advance b 1))),
                  advance (advance b 1) (k + 1))"
  proof (rule Suc.IH)
    show "k < remaining (advance b 1)"
      using Suc.prems(1) by simp
    show "buf (advance b 1) ! (pos (advance b 1) + k) = 0"
      using Suc.prems(2) by simp
    show "\<forall>i<k. buf (advance b 1) ! (pos (advance b 1) + i) \<noteq> 0"
      using Suc.prems(3) by auto
    show "length (name @ [?x]) + k < CA_MAX_FILENAME_SIZE"
      using Suc.prems(4) by simp
  qed
  moreover have "take (Suc k) (drop (pos b) (buf b)) = ?x # take k (drop (Suc (pos b)) (buf b))"
    using Suc.prems(1) by (simp add: remaining_def take_Suc Cons_nth_drop_Suc [symmetric] del: drop_Suc_Cons)
  ultimately show ?case
    using Suc.prems(4) x
    by (subst filename_loop.simps) (simp add: r add.commute)
qed

lemma filename_loop_cap:
  assumes "n \<le> remaining b" and "\<forall>i<n. buf b ! (pos b + i) \<noteq> 0"
    and "length name + n = CA_MAX_FILENAME_SIZE"
  shows "filename_loop b name = Some (name @ take n (drop (pos b) (buf b)), advance b n)"
  using assms
proof (induction n arbitrary: b name)
  case 0
  then show ?case
    by (subst filename_loop.simps) (simp add: advance_def)
next
  case (Suc n)
  let ?x = "buf b ! pos b"
  have x: "?x \<noteq> 0"
    using Suc.prems(2) by force
  have r: "read b 1 = ([?x], advance b 1)"
    using Suc.prems(1) by (simp add: read_one)
  have "filename_loop (advance b 1) (name @ [?x])
          = Some ((name @ [?x]) @ take n (drop (pos (advance b 1)) (buf (advance b 1))),
                  advance (advance b 1) n)"
  proof (rule Suc.IH)
    show "n \<le> remaining (advance b 1)"
      using Suc.prems(1) by simp
    show "\<forall>i<n. buf (advance b 1) ! (pos (advance b 1) + i) \<noteq> 0"
      using Suc.prems(2) by auto
    show "length (name @ [?x]) + n = CA_MAX_FILENAME_SIZE"
      using Suc.prems(3) by simp
  qed
  moreover have "take (Suc n) (drop (pos b) (buf b)) = ?x # take n (drop (Suc (pos b)) (buf b))"
    using Suc.prems(1) by (simp add: remaining_def take_Suc Cons_nth_drop_Suc [symmetric] del: drop_Suc_Cons)
  ultimately show ?case
    using Suc.prems(3) x
    by (subst filename_loop.simps) (simp add: r add.commute)
qed

text \<open>At the end of the buffer the loop makes no progress and never returns.\<close>

lemma filename_loop_at_end:
  assumes "filename_loop b name = Some y"
  shows "\<not> (remaining b = 0 \<and> length name < CA_MAX_FILENAME_SIZE)"
proof (rule filename_loop.raw_induct
    [where P = "\<lambda>b name y. \<not> (remaining b = 0 \<and> length name < CA_MAX_FILENAME_SIZE)",
      OF _ assms])
  fix f b name y
  assume IH: "\<And>b name y. f b name = Some y
                \<Longrightarrow> \<not> (remaining b = 0 \<and> length name < CA_MAX_FILENAME_SIZE)"
    and eq: "(if length name < CA_MAX_FILENAME_SIZE
              then case read b 1 of
                     (c, b') \<Rightarrow> if c = [0] then Some (name, b') else f b' (name @ c)
              else Some (name, b)) = Some y"
  show "\<not> (remaining b = 0 \<and> length name < CA_MAX_FILENAME_SIZE)"
  proof
    assume stuck: "remaining b = 0 \<and> length name < CA_MAX_FILENAME_SIZE"
    then have "read b 1 = ([], b)"
      by (simp add: read_at_end)
    with eq stuck have "f b name = Some y"
      by simp
    from IH [OF this] stuck show False
      by simp
  qed
qed

lemma filename_loop_never_returns:
  assumes "remaining b = 0" and "length name < CA_MAX_FILENAME_SIZE"
  shows "filename_loop b name = None"
proof (cases "filename_loop b name")
  case None
  then show ?thesis .
next
  case (Some y)
  from filename_loop_at_end [OF this] assms show ?thesis
    by simp
qed

lemma filename_loop_diverges:
  assumes "0 \<notin> set (drop (pos b) (buf b))"
    and "length name + remaining b < CA_MAX_FILENAME_SIZE"
  shows "filename_loop b name = None"
  using assms
proof (induction "remaining b" arbitrary: b name)
  case 0
  then show ?case
    by (simp add: filename_loop_never_returns)
next
  case (Suc n)
  let ?x = "buf b ! pos b"
  from Suc.hyps(2) have lt: "pos b < length (buf b)"
    by (simp add: remaining_def)
  then have d: "drop (pos b) (buf b) = ?x # drop (Suc (pos b)) (buf b)"
    by (simp add: Cons_nth_drop_Suc)
  with Suc.prems(1) have x: "?x \<noteq> 0" and rest: "0 \<notin> set (drop (pos (advance b 1)) (buf (advance b 1)))"
    by auto
  from Suc.hyps(2) have r: "read b 1 = ([?x], advance b 1)"
    by (simp add: read_one)
  have "filename_loop (advance b 1) (name @ [?x]) = None"
  proof (rule Suc.hyps(1))
    show "n = remaining (advance b 1)"
      using Suc.hyps(2) by simp
    show "0 \<notin> set (drop (pos (advance b 1)) (buf (advance b 1)))"
      by (rule rest)
    show "length (name @ [?x]) + remaining (advance b 1) < CA_MAX_FILENAME_SIZE"
      using Suc.prems(2) Suc.hyps(2) by simp
  qed
  with r x Suc.prems(2) show ?case
    by (subst filename_loop.simps) simp
qed

lemma name_len_facts:
  fixes nm :: "byte list"
  defines "k \<equiv> name_len nm"
  shows "k \<le> CA_MAX_FILENAME_SIZE" and "k \<le> length nm" and "0 \<notin> set (take k nm)"
    and "k < CA_MAX_FILENAME_SIZE \<Longrightarrow> k < length nm \<Longrightarrow> nm ! k = 0"
proof -
  let ?w = "take CA_MAX_FILENAME_SIZE nm"
  let ?t = "takeWhile (\<lambda>x. x \<noteq> 0) ?w"
  have le: "k \<le> length ?w"
    unfolding k_def name_len_def by (rule length_takeWhile_le)
  then show k1: "k \<le> CA_MAX_FILENAME_SIZE" and k2: "k \<le> length nm"
    by simp_all
  have "?t = take k ?w"
    unfolding k_def name_len_def by (rule takeWhile_eq_take)
  also have "\<dots> = take k nm"
    using k1 by (simp add: min_def)
  finally have t: "?t = take k nm" .
  have "0 \<notin> set ?t"
    by (auto dest: set_takeWhileD)
  with t show "0 \<notin> set (take k nm)"
    by simp
  show "nm ! k = 0" if "k < CA_MAX_FILENAME_SIZE" "k < length nm"
  proof -
    from that have "length ?t < length ?w"
      by (simp add: k_def name_len_def)
    from nth_length_takeWhile [OF this] have "?w ! k = 0"
      by (simp add: k_def name_len_def)
    with that show ?thesis
      by simp
  qed
qed

lemma filename_loop_value:
  assumes "filename_loop b [] = Some (name, b')"
  shows "name = take (name_len (drop (pos b) (buf b))) (drop (pos b) (buf b))"
    and "b' = advance b (name_span (drop (pos b) (buf b)))"
proof -
  let ?nm = "drop (pos b) (buf b)"
  let ?k = "name_len ?nm"
  note f = name_len_facts [of ?nm]
  have len: "length ?nm = remaining b"
    by (simp add: remaining_def)
  from f(3) f(2) have "\<forall>i<?k. ?nm ! i \<noteq> 0"
    by (auto simp: in_set_conv_nth)
  then have nz: "\<forall>i<?k. buf b ! (pos b + i) \<noteq> 0"
    using f(2) by simp
  have "filename_loop b [] = Some (take ?k ?nm, advance b (name_span ?nm))"
  proof (cases "?k < CA_MAX_FILENAME_SIZE")
    case True
    show ?thesis
    proof (cases "?k < length ?nm")
      case True
      have "filename_loop b [] = Some ([] @ take ?k ?nm, advance b (?k + 1))"
      proof (rule filename_loop_terminator)
        show "?k < remaining b" using True len by simp
        show "buf b ! (pos b + ?k) = 0"
          using f(4) [OF \<open>?k < CA_MAX_FILENAME_SIZE\<close> True] True by simp
        show "\<forall>i<?k. buf b ! (pos b + i) \<noteq> 0" by (rule nz)
        show "length ([] :: byte list) + ?k < CA_MAX_FILENAME_SIZE"
          using \<open>?k < CA_MAX_FILENAME_SIZE\<close> by simp
      qed
      with \<open>?k < CA_MAX_FILENAME_SIZE\<close> show ?thesis
        by (simp add: name_span_def)
    next
      case False
      with f(2) have all: "?k = length ?nm"
        by simp
      with f(3) have "0 \<notin> set ?nm"
        by simp
      moreover from all True len have "length ([] :: byte list) + remaining b < CA_MAX_FILENAME_SIZE"
        by simp
      ultimately have "filename_loop b [] = None"
        by (rule filename_loop_diverges)
      with assms show ?thesis
        by simp
    qed
  next
    case False
    with f(1) have k: "?k = CA_MAX_FILENAME_SIZE"
      by simp
    have "filename_loop b [] = Some ([] @ take ?k ?nm, advance b ?k)"
    proof (rule filename_loop_cap)
      show "?k \<le> remaining b" using f(2) len by simp
      show "\<forall>i<?k. buf b ! (pos b + i) \<noteq> 0" by (rule nz)
      show "length ([] :: byte list) + ?k = CA_MAX_FILENAME_SIZE" using k by simp
    qed
    with False show ?thesis
      by (simp add: name_span_def)
  qed
  with assms show "name = take ?k ?nm" and "b' = advance b (name_span ?nm)"
    by simp_all
qed

lemma filename_loop_buf:
  assumes "filename_loop b name = Some y"
  shows "buf (snd y) = buf b"
proof (rule filename_loop.raw_induct
    [where P = "\<lambda>b name y. buf (snd y) = buf b", OF _ assms])
  fix f b name y
  assume IH: "\<And>b name y. f b name = Some y \<Longrightarrow> buf (snd y) = buf b"
    and eq: "(if length name < CA_MAX_FILENAME_SIZE
              then case read b 1 of
                     (c, b') \<Rightarrow> if c = [0] then Some (name, b') else f b' (name @ c)
              else Some (name, b)) = Some y"
  obtain c b' where r: "read b 1 = (c, b')"
    by force
  then have b': "buf b' = buf b"
    by (auto simp: read_def Let_def)
  show "buf (snd y) = buf b"
  proof (cases "length name < CA_MAX_FILENAME_SIZE")
    case False
    with eq show ?thesis by auto
  next
    case True
    show ?thesis
    proof (cases "c = [0]")
      case True
      with eq r b' \<open>length name < CA_MAX_FILENAME_SIZE\<close> show ?thesis by auto
    next
      case False
      with eq r True have "f b' (name @ c) = Some y" by simp
      from IH [OF this] b' show ?thesis by simp
    qed
  qed
qed

lemma CAFilename_cases:
  "CAFilename_from_buffer b =
     (if remaining b < 16 then Some (Inl StructError)
      else if u64_at b 8 = CA_FORMAT_GOODBYE then Some (Inr (None, advance b 16))
      else if u64_at b 8 \<noteq> CA_FORMAT_FILENAME then Some (Inl AssertionError)
      else (case filename_loop (advance b 16) [] of
              None \<Rightarrow> None
            | Some (name, b2) \<Rightarrow>
                (case utf8_decode name of
                   Inl e \<Rightarrow> Some (Inl e)
                 | Inr s \<Rightarrow>
                     Some (Inr (Some \<lparr>filename_header =
                                        \<lparr>size_h = u64_at b 0, type_h = CA_FORMAT_FILENAME\<rparr>,
                                      filename = s\<rparr>, b2)))))"
  by (simp add: CAFilename_from_buffer_def CAFilenameHeader_from_buffer_def header_cases)

lemma utf8_decode_ascii:
  assumes "a < 0x80"
  shows "utf8_decode (replicate n a @ ys)
           = (case utf8_decode ys of Inl e \<Rightarrow> Inl e | Inr s \<Rightarrow> Inr (replicate n (unat a) @ s))"
  using assms by (induction n) (auto simp: push_def split: sum.splits)

lemma CAFilename_result:
  assumes "CAFilename_from_buffer b = Some (Inr (r, b'))"
  shows "16 \<le> remaining b \<and> buf b' = buf b"
proof (cases "16 \<le> remaining b \<and> u64_at b 8 \<noteq> CA_FORMAT_GOODBYE \<and> u64_at b 8 = CA_FORMAT_FILENAME")
  case False
  with assms show ?thesis
    by (auto simp: CAFilename_cases split: if_splits)
next
  case True
  with assms obtain name where "filename_loop (advance b 16) [] = Some (name, b')"
    by (auto simp: CAFilename_cases split: option.splits sum.splits)
  from filename_loop_buf [OF this] True show ?thesis
    by simp
qed

lemma CAFilename_value:
  assumes "CAFilename_from_buffer b = Some (Inr (Some fname, b1))"
  shows "16 \<le> remaining b"
    and "b1 = advance b (16 + name_span (drop (pos b + 16) (buf b)))"
proof -
  from assms show r: "16 \<le> remaining b"
    by (auto simp: CAFilename_cases split: if_splits)
  from assms r obtain name where "filename_loop (advance b 16) [] = Some (name, b1)"
    by (auto simp: CAFilename_cases split: if_splits option.splits sum.splits)
  from filename_loop_value(2) [OF this]
  show "b1 = advance b (16 + name_span (drop (pos b + 16) (buf b)))"
    by simp
qed

lemma CAFilename_truncated:
  "remaining b < 16 \<Longrightarrow> CAFilename_from_buffer b = Some (Inl StructError)"
  by (simp add: CAFilename_cases)

subsection \<open>Files and the archive\<close>

lemma CAFile_truncated:
  "remaining b < 16 \<Longrightarrow> CAFile_from_bytes b = Some (Inl StructError)"
  by (simp add: CAFile_from_bytes_def CAFilename_truncated)

text \<open>A payload whose declared size does not fit the size argument of \<^verbatim>\<open>b.read\<close>.\<close>

lemma payload_too_large:
  assumes "CAFilename_from_buffer b = Some (Inr (Some fname, b1))"
    and "CAArchive_from_buffer b1 = Inr (ar, b2)"
    and "CAPayloadHeader_from_buffer b2 = Inr (Some payload, b3)"
    and "PY_SSIZE_T_MAX < size_h payload - 16"
  shows "CAFile_from_bytes b = Some (Inl OverflowError)"
  using assms by (simp add: CAFile_from_bytes_def)

lemma CAFile_result:
  assumes "CAFile_from_bytes b = Some (Inr (r, b'))"
  shows "16 \<le> remaining b \<and> buf b' = buf b"
    and "r = Some file \<Longrightarrow>
         \<exists>bp payload. buf bp = buf b
           \<and> CAPayloadHeader_from_buffer bp = Inr (Some payload, advance bp 16)
           \<and> read (advance bp 16) (size_h payload - 16) = (data file, b')"
proof -
  from assms obtain r1 b1 where fn: "CAFilename_from_buffer b = Some (Inr (r1, b1))"
    by (auto simp: CAFile_from_bytes_def split: option.splits sum.splits)
  note f1 = CAFilename_result [OF fn]
  show "16 \<le> remaining b \<and> buf b' = buf b"
  proof (cases r1)
    case None
    with assms fn f1 show ?thesis
      by (simp add: CAFile_from_bytes_def)
  next
    case (Some fname)
    with assms fn obtain a b2 payload b3 d where
      ar: "CAArchive_from_buffer b1 = Inr (a, b2)"
      and ph: "CAPayloadHeader_from_buffer b2 = Inr (Some payload, b3)"
      and rd: "read b3 (size_h payload - 16) = (d, b')"
      by (auto simp: CAFile_from_bytes_def split: option.splits sum.splits prod.splits if_splits)
    from ph have "b3 = advance b2 16"
      by (auto simp: CAPayloadHeader_from_buffer_def header_cases split: if_splits)
    with CAArchive_result [OF ar] read_result(1) [OF rd] f1 show ?thesis
      by simp
  qed
  show "\<exists>bp payload. buf bp = buf b
           \<and> CAPayloadHeader_from_buffer bp = Inr (Some payload, advance bp 16)
           \<and> read (advance bp 16) (size_h payload - 16) = (data file, b')"
    if "r = Some file"
  proof -
    from assms fn that obtain fname where r1: "r1 = Some fname"
      by (cases r1) (auto simp: CAFile_from_bytes_def)
    with assms fn obtain a b2 payload b3 d where
      ar: "CAArchive_from_buffer b1 = Inr (a, b2)"
      and ph: "CAPayloadHeader_from_buffer b2 = Inr (Some payload, b3)"
      and rd: "read b3 (size_h payload - 16) = (d, b')"
      and r: "r = Some \<lparr>file_filename = fname, data = d\<rparr>"
      by (auto simp: CAFile_from_bytes_def split: option.splits sum.splits prod.splits if_splits)
    from ph have b3: "b3 = advance b2 16"
      by (auto simp: CAPayloadHeader_from_buffer_def header_cases split: if_splits)
    from CAArchive_result [OF ar] f1 have "buf b2 = buf b"
      by simp
    with ph rd r that b3 show ?thesis
      by auto
  qed
qed

lemma CAFile_value:
  assumes "CAFile_from_bytes b = Some (Inr (Some file, b'))"
  defines "p \<equiv> payload_pos (buf b) (pos b)"
  shows "p + 16 \<le> length (buf b)"
    and "le_int (take 8 (drop (p + 8) (buf b))) = CA_FORMAT_PAYLOAD"
    and "read \<lparr>buf = buf b, pos = p + 16\<rparr> (le_int (take 8 (drop p (buf b))) - 16)
           = (data file, b')"
    and "le_int (take 8 (drop p (buf b))) - 16 \<le> PY_SSIZE_T_MAX"
proof -
  from assms(1) obtain fname b1 where fn: "CAFilename_from_buffer b = Some (Inr (Some fname, b1))"
    by (auto simp: CAFile_from_bytes_def split: option.splits sum.splits)
  from assms(1) fn obtain a b2 payload b3 where
    ar: "CAArchive_from_buffer b1 = Inr (a, b2)"
    and ph: "CAPayloadHeader_from_buffer b2 = Inr (Some payload, b3)"
    and sz: "size_h payload - 16 \<le> PY_SSIZE_T_MAX"
    and rd: "read b3 (size_h payload - 16) = (data file, b')"
    by (auto simp: CAFile_from_bytes_def split: option.splits sum.splits prod.splits if_splits)
  from CAFilename_value(2) [OF fn] CAArchive_result [OF ar]
  have b2: "b2 = \<lparr>buf = buf b, pos = p\<rparr>"
    by (simp add: p_def payload_pos_def advance_def)
  from ph have h: "16 \<le> remaining b2" "u64_at b2 8 = CA_FORMAT_PAYLOAD"
    "size_h payload = u64_at b2 0" "b3 = advance b2 16"
    by (auto simp: CAPayloadHeader_from_buffer_def header_cases split: if_splits)
  from h(1) b2 show "p + 16 \<le> length (buf b)"
    by (simp add: remaining_def)
  from h(2) b2 show "le_int (take 8 (drop (p + 8) (buf b))) = CA_FORMAT_PAYLOAD"
    by (simp add: u64_at_def)
  from h(3) b2 have s: "size_h payload = le_int (take 8 (drop p (buf b)))"
    by (simp add: u64_at_def)
  with sz show "le_int (take 8 (drop p (buf b))) - 16 \<le> PY_SSIZE_T_MAX"
    by simp
  from rd h(4) b2 s
  show "read \<lparr>buf = buf b, pos = p + 16\<rparr> (le_int (take 8 (drop p (buf b))) - 16)
           = (data file, b')"
    by (simp add: advance_def)
qed

lemma CAFile_payload_at:
  assumes "CAFile_from_bytes b = Some (Inr (Some file, b'))" and "0 < remaining b'"
  shows "payload_at (buf b) (payload_pos (buf b) (pos b)) file"
    and "b' = \<lparr>buf = buf b,
               pos = payload_pos (buf b) (pos b)
                       + nat (le_int (take 8 (drop (payload_pos (buf b) (pos b)) (buf b))))\<rparr>"
proof -
  let ?p = "payload_pos (buf b) (pos b)"
  let ?n = "le_int (take 8 (drop ?p (buf b))) - 16"
  note v = CAFile_value [OF assms(1)]
  from read_result(3) [OF v(3)] assms(2) have len: "int (length (data file)) = ?n"
    by simp
  from read_result(2) [OF v(3)]
  have d: "data file = take (length (data file)) (drop (?p + 16) (buf b))"
    by simp
  from v(1,2) len d show "payload_at (buf b) ?p file"
    by (simp add: payload_at_def)
  from len have n: "0 \<le> ?n" "nat ?n = length (data file)"
    by simp_all
  have "?p + 16 + length (data file) \<le> length (buf b)"
  proof -
    have "length (take (length (data file)) (drop (?p + 16) (buf b))) = length (data file)"
      using d by simp
    with v(1) show ?thesis by (simp add: min_def split: if_splits)
  qed
  with n v(1) have "nat ?n \<le> remaining \<lparr>buf = buf b, pos = ?p + 16\<rparr>"
    by (simp add: remaining_def)
  from read_enough [OF n(1) this] v(3) n
  show "b' = \<lparr>buf = buf b, pos = ?p + nat (le_int (take 8 (drop ?p (buf b))))\<rparr>"
    by (simp add: advance_def nat_diff_distrib)
qed

lemma files_loop_result:
  assumes "files_loop b fs = Some y"
  shows "\<forall>fs' b'. y = Inr (fs', b') \<longrightarrow>
           16 \<le> remaining b \<and> buf b' = buf b
           \<and> (\<exists>new. fs' = fs @ new
                \<and> list_all2 (payload_at (buf b))
                      (file_positions (buf b) (pos b) (length new)) new)"
proof (rule files_loop.raw_induct
    [where P = "\<lambda>b fs y. \<forall>fs' b'. y = Inr (fs', b') \<longrightarrow>
           16 \<le> remaining b \<and> buf b' = buf b
           \<and> (\<exists>new. fs' = fs @ new
                \<and> list_all2 (payload_at (buf b))
                      (file_positions (buf b) (pos b) (length new)) new)", OF _ assms])
  fix loop b fs y
  assume IH: "\<And>b fs y. loop b fs = Some y \<Longrightarrow>
           \<forall>fs' b'. y = Inr (fs', b') \<longrightarrow>
           16 \<le> remaining b \<and> buf b' = buf b
           \<and> (\<exists>new. fs' = fs @ new
                \<and> list_all2 (payload_at (buf b))
                      (file_positions (buf b) (pos b) (length new)) new)"
    and eq: "(case CAFile_from_bytes b of
                None \<Rightarrow> None
              | Some (Inl e) \<Rightarrow> Some (Inl e)
              | Some (Inr (None, b')) \<Rightarrow> Some (Inr (fs, b'))
              | Some (Inr (Some file, b')) \<Rightarrow> loop b' (fs @ [file])) = Some y"
  show "\<forall>fs' b'. y = Inr (fs', b') \<longrightarrow>
           16 \<le> remaining b \<and> buf b' = buf b
           \<and> (\<exists>new. fs' = fs @ new
                \<and> list_all2 (payload_at (buf b))
                      (file_positions (buf b) (pos b) (length new)) new)"
  proof (intro allI impI)
    fix fs' b'
    assume y: "y = Inr (fs', b')"
    with eq obtain r b1 where cf: "CAFile_from_bytes b = Some (Inr (r, b1))"
      by (auto split: option.splits sum.splits)
    note f1 = CAFile_result(1) [OF cf]
    show "16 \<le> remaining b \<and> buf b' = buf b
           \<and> (\<exists>new. fs' = fs @ new
                \<and> list_all2 (payload_at (buf b))
                      (file_positions (buf b) (pos b) (length new)) new)"
    proof (cases r)
      case None
      with eq cf y have "fs' = fs @ []" "b' = b1"
        by simp_all
      with f1 show ?thesis
        by simp
    next
      case (Some f)
      with eq cf have "loop b1 (fs @ [f]) = Some y"
        by simp
      from IH [OF this] y obtain new where
        rest: "16 \<le> remaining b1" "buf b' = buf b1" "fs' = (fs @ [f]) @ new"
          "list_all2 (payload_at (buf b1)) (file_positions (buf b1) (pos b1) (length new)) new"
        by blast
      from cf Some have cf': "CAFile_from_bytes b = Some (Inr (Some f, b1))"
        by simp
      from rest(1) have "0 < remaining b1"
        by simp
      note pa = CAFile_payload_at [OF cf' this]
      from pa(2) have "pos b1 = payload_pos (buf b) (pos b)
                         + nat (le_int (take 8 (drop (payload_pos (buf b) (pos b)) (buf b))))"
        and "buf b1 = buf b"
        by simp_all
      with rest(4) pa(1)
      have "list_all2 (payload_at (buf b))
              (file_positions (buf b) (pos b) (length (f # new))) (f # new)"
        by simp
      moreover from rest(3) have "fs' = fs @ (f # new)"
        by simp
      ultimately have "\<exists>new. fs' = fs @ new
                \<and> list_all2 (payload_at (buf b))
                      (file_positions (buf b) (pos b) (length new)) new"
        by blast
      with rest(2) f1 show ?thesis
        by simp
    qed
  qed
qed

lemma loop_state_files_loop:
  assumes "loop_state n b fs = Some (b', fs')"
  shows "files_loop b fs = files_loop b' fs'"
  using assms
proof (induction n arbitrary: b fs)
  case 0
  then show ?case by simp
next
  case (Suc n)
  from Suc.prems obtain f0 b1 where
    f: "CAFile_from_bytes b = Some (Inr (Some f0, b1))"
    and r: "loop_state n b1 (fs @ [f0]) = Some (b', fs')"
    by (auto split: option.splits sum.splits prod.splits)
  from f have "files_loop b fs = files_loop b1 (fs @ [f0])"
    by (subst files_loop.simps) simp
  with Suc.IH [OF r] show ?case
    by simp
qed

subsection \<open>The index and its chunk table\<close>

lemma read_32_cases:
  "(case read b CA_HEADER_LEN of (d, b2) \<Rightarrow>
      (case unpack_QQQQ d of
         Inl e \<Rightarrow> Inl e
       | Inr (f, mn, av, mx) \<Rightarrow>
           Inr (\<lparr>index_header = h, index_flags = f, chunk_size_min = mn,
                 chunk_size_avg = av, chunk_size_max = mx\<rparr>, b2)))
   = (if remaining b < 32 then Inl StructError
      else Inr (\<lparr>index_header = h, index_flags = u64_at b 0, chunk_size_min = u64_at b 8,
                 chunk_size_avg = u64_at b 16, chunk_size_max = u64_at b 24\<rparr>, advance b 32))"
proof (cases "remaining b < 32")
  case True
  then have "read b 32 = (drop (pos b) (buf b), advance b (remaining b))"
    by (simp add: read_short)
  moreover have "length (drop (pos b) (buf b)) \<noteq> 32"
    using True by (simp add: remaining_def)
  ultimately show ?thesis
    using True by (simp add: unpack_QQQQ_def CA_HEADER_LEN_def)
next
  case False
  then have "read b 32 = (take 32 (drop (pos b) (buf b)), advance b 32)"
    by (simp add: read_enough)
  with False show ?thesis
    by (simp add: unpack_QQQQ_window CA_HEADER_LEN_def)
qed

lemma CaFormatIndex_cases:
  "CaFormatIndex_from_buffer b =
     (if remaining b < 16 then Inl StructError
      else if u64_at b 8 \<noteq> CA_FORMAT_GOODBYE \<and> u64_at b 8 \<noteq> CA_FORMAT_INDEX
        then Inl AssertionError
      else if remaining b < 48 then Inl StructError
      else Inr (\<lparr>index_header =
                    (if u64_at b 8 = CA_FORMAT_GOODBYE then None
                     else Some \<lparr>size_h = u64_at b 0, type_h = CA_FORMAT_INDEX\<rparr>),
                  index_flags = u64_at b 16, chunk_size_min = u64_at b 24,
                  chunk_size_avg = u64_at b 32, chunk_size_max = u64_at b 40\<rparr>,
                advance b 48))"
  unfolding CaFormatIndex_from_buffer_def CAIndexHeader_from_buffer_def header_cases
  by (auto simp: read_32_cases)

lemma CaFormatIndex_result:
  assumes "CaFormatIndex_from_buffer b = Inr (x, b')"
  shows "48 \<le> remaining b \<and> b' = advance b 48"
  using assms by (auto simp: CaFormatIndex_cases split: if_splits)

lemma CAChunk_enough:
  assumes "40 \<le> remaining b"
  shows "CAChunk_from_buffer b off = Inr (table_chunk b off 0, advance b 40)"
proof -
  have r8: "read b 8 = (take 8 (drop (pos b) (buf b)), advance b 8)"
    using assms by (simp add: read_enough)
  have u: "unpack_Q (take 8 (drop (pos b) (buf b))) = Inr (u64_at b 0)"
    using assms by (simp add: unpack_Q_window)
  have r32: "read (advance b 8) 32
               = (take 32 (drop (pos b + 8) (buf b)), advance b 40)"
    using assms by (simp add: read_enough)
  show ?thesis
    by (simp add: CAChunk_from_buffer_def r8 u r32 table_chunk_def)
qed

lemma table_chunk_Suc:
  "table_chunk b off (Suc i) = table_chunk (advance b 40) (u64_at b 0) i"
  by (cases i) (simp_all add: table_chunk_def add.commute add.left_commute)

lemma table_chunks_Suc:
  "map (table_chunk b off) [0..<Suc n]
     = table_chunk b off 0 # map (table_chunk (advance b 40) (u64_at b 0)) [0..<n]"
proof -
  have "[0..<Suc n] = 0 # map Suc [0..<n]"
    by (simp add: upt_conv_Cons map_Suc_upt del: upt_Suc)
  then show ?thesis
    by (simp add: table_chunk_Suc comp_def del: upt_Suc)
qed

lemma chunks_loop_enough:
  assumes "40 * n \<le> remaining b"
  shows "chunks_loop n b off acc
           = Inr (acc @ map (table_chunk b off) [0..<n], advance b (40 * n))"
  using assms
proof (induction n arbitrary: b off acc)
  case 0
  then show ?case by (simp add: advance_def)
next
  case (Suc n)
  from Suc.prems have c: "CAChunk_from_buffer b off = Inr (table_chunk b off 0, advance b 40)"
    by (simp add: CAChunk_enough)
  have l: "off + length_c (table_chunk b off 0) = u64_at b 0"
    by (simp add: table_chunk_def)
  from Suc.prems have "40 * n \<le> remaining (advance b 40)"
    by simp
  from Suc.IH [OF this] c l show ?case
    by (simp add: table_chunks_Suc del: upt_Suc)
qed

lemma table_chunks_contiguous:
  "contiguous off (map (table_chunk b off) [0..<n])"
proof (induction n arbitrary: b off)
  case 0
  then show ?case by simp
next
  case (Suc n)
  have "off + length_c (table_chunk b off 0) = u64_at b 0" "offset (table_chunk b off 0) = off"
    by (simp_all add: table_chunk_def)
  with Suc [of "u64_at b 0" "advance b 40"] show ?case
    by (simp add: table_chunks_Suc del: upt_Suc)
qed

lemma contiguous_hd: "contiguous off cs \<Longrightarrow> cs \<noteq> [] \<Longrightarrow> offset (hd cs) = off"
  by (cases cs) simp_all

lemma contiguous_nth:
  "contiguous off cs \<Longrightarrow> Suc i < length cs
   \<Longrightarrow> offset (cs ! Suc i) = offset (cs ! i) + length_c (cs ! i)"
proof (induction cs arbitrary: off i)
  case Nil
  then show ?case by simp
next
  case (Cons c cs)
  show ?case
  proof (cases i)
    case 0
    with Cons.prems show ?thesis by (cases cs) simp_all
  next
    case (Suc j)
    with Cons.prems Cons.IH [of "off + length_c c" j] show ?thesis by simp
  qed
qed

lemma contiguous_sum:
  "contiguous off cs \<Longrightarrow>
   off + sum_list (map length_c cs)
     = (if cs = [] then off else offset (last cs) + length_c (last cs))"
proof (induction cs arbitrary: off)
  case Nil
  then show ?case by simp
next
  case (Cons c cs)
  from Cons.prems have "contiguous (off + length_c c) cs"
    by simp
  from Cons.IH [OF this] Cons.prems show ?case
    by (cases "cs = []") simp_all
qed

lemma contiguous_strict:
  assumes "contiguous off cs"
  shows "sorted_wrt (<) (map offset cs)
           \<longleftrightarrow> (\<forall>i. Suc i < length cs \<longrightarrow> 0 < length_c (cs ! i))"
proof -
  have "sorted_wrt (<) (map offset cs)
          \<longleftrightarrow> (\<forall>i. Suc i < length (map offset cs)
                 \<longrightarrow> map offset cs ! i < map offset cs ! Suc i)"
    by (rule sorted_wrt_iff_nth_Suc_transp) (simp add: transp_on_def)
  also have "\<dots> \<longleftrightarrow> (\<forall>i. Suc i < length cs \<longrightarrow> offset (cs ! i) < offset (cs ! Suc i))"
    by auto
  also have "\<dots> \<longleftrightarrow> (\<forall>i. Suc i < length cs \<longrightarrow> 0 < length_c (cs ! i))"
    using contiguous_nth [OF assms] by auto
  finally show ?thesis .
qed

lemma num_chunks_fit:
  assumes "64 \<le> len"
  shows "64 + 40 * nat (num_chunks (int len)) \<le> len"
  using assms
  by (simp add: num_chunks_def CA_HEADER_LEN_def CA_TABLE_MIN_LEN_def CA_TABLE_HEADER_LEN_def
      CA_TABLE_ENTRY_LEN_def)

lemma CAIndex_value:
  assumes "64 \<le> length (buf b)"
    and "u64_at (b\<lparr>pos := 0\<rparr>) 8 = CA_FORMAT_INDEX \<or> u64_at (b\<lparr>pos := 0\<rparr>) 8 = CA_FORMAT_GOODBYE"
    and "u64_at (b\<lparr>pos := 0\<rparr>) 56 = CA_FORMAT_TABLE \<or> u64_at (b\<lparr>pos := 0\<rparr>) 56 = CA_FORMAT_GOODBYE"
  shows "CAIndex_from_buffer b
           = Inr (map (table_chunk (b\<lparr>pos := 64\<rparr>) 0) [0..<nat (num_chunks (int (length (buf b))))],
                  b\<lparr>pos := 64 + 40 * nat (num_chunks (int (length (buf b))))\<rparr>)"
proof -
  let ?b0 = "b\<lparr>pos := 0\<rparr>"
  let ?n = "nat (num_chunks (int (length (buf b))))"
  have r: "remaining ?b0 = length (buf b)"
    by (simp add: remaining_def)
  from assms(1,2) r have "\<exists>x. CaFormatIndex_from_buffer ?b0 = Inr (x, advance ?b0 48)"
    by (auto simp: CaFormatIndex_cases)
  then obtain x where i: "CaFormatIndex_from_buffer ?b0 = Inr (x, advance ?b0 48)" ..
  from assms(1,3) r
  have "\<exists>y. CATableHeader_from_buffer (advance ?b0 48) = Inr (y, advance ?b0 64)"
    by (auto simp: CATableHeader_from_buffer_def header_cases)
  then obtain y where
    t: "CATableHeader_from_buffer (advance ?b0 48) = Inr (y, advance ?b0 64)" ..
  have "40 * ?n \<le> remaining (advance ?b0 64)"
    using num_chunks_fit [OF assms(1)] r by simp
  from chunks_loop_enough [OF this, of 0 "[]"] i t show ?thesis
    by (simp add: CAIndex_from_buffer_def Let_def advance_def)
qed

lemma CAIndex_result:
  assumes "CAIndex_from_buffer b = Inr (chunks, b')"
  shows "64 \<le> length (buf b)"
    and "chunks = map (table_chunk (b\<lparr>pos := 64\<rparr>) 0)
                    [0..<nat (num_chunks (int (length (buf b))))]"
    and "b' = b\<lparr>pos := 64 + 40 * nat (num_chunks (int (length (buf b))))\<rparr>"
proof -
  let ?b0 = "b\<lparr>pos := 0\<rparr>"
  have r: "remaining ?b0 = length (buf b)"
    by (simp add: remaining_def)
  from assms obtain x b1 y b2 where i: "CaFormatIndex_from_buffer ?b0 = Inr (x, b1)"
    and t: "CATableHeader_from_buffer b1 = Inr (y, b2)"
    by (auto simp: CAIndex_from_buffer_def Let_def split: sum.splits)
  from i have m1: "u64_at ?b0 8 = CA_FORMAT_INDEX \<or> u64_at ?b0 8 = CA_FORMAT_GOODBYE"
    and b1: "b1 = advance ?b0 48" and l1: "48 \<le> remaining ?b0"
    by (auto simp: CaFormatIndex_cases split: if_splits)
  from t b1 have m2: "u64_at ?b0 56 = CA_FORMAT_TABLE \<or> u64_at ?b0 56 = CA_FORMAT_GOODBYE"
    and l2: "16 \<le> remaining (advance ?b0 48)"
    by (auto simp: CATableHeader_from_buffer_def header_cases split: if_splits)
  from l1 l2 r show len: "64 \<le> length (buf b)"
    by simp
  from CAIndex_value [OF len m1 m2] assms
  show "chunks = map (table_chunk (b\<lparr>pos := 64\<rparr>) 0)
                    [0..<nat (num_chunks (int (length (buf b))))]"
    and "b' = b\<lparr>pos := 64 + 40 * nat (num_chunks (int (length (buf b))))\<rparr>"
    by simp_all
qed

subsection \<open>Errors end the decoding\<close>

text \<open>An exception raised by a header decoder ends the decoder that called it.\<close>

lemma table_header_error:
  assumes "CaFormatIndex_from_buffer (b\<lparr>pos := 0\<rparr>) = Inr (x, b1)"
    and "CATableHeader_from_buffer b1 = Inl e"
  shows "CAIndex_from_buffer b = Inl e"
  using assms by (simp add: CAIndex_from_buffer_def Let_def)

lemma entry_header_error:
  assumes "CAEntryHeader_from_buffer b = Inl e"
  shows "CAEntry_from_buffer b = Inl e" and "CAArchive_from_buffer b = Inl e"
    and "CATar_from_bytes b = Some (Inl e)"
  using assms
  by (simp_all add: CAEntry_from_buffer_def CAArchive_from_buffer_def CATar_from_bytes_def)

lemma filename_header_error:
  assumes "CAFilenameHeader_from_buffer b = Inl e"
  shows "CAFilename_from_buffer b = Some (Inl e)" and "CAFile_from_bytes b = Some (Inl e)"
    and "files_loop b fs = Some (Inl e)"
proof -
  show 1: "CAFilename_from_buffer b = Some (Inl e)"
    using assms by (simp add: CAFilename_from_buffer_def)
  then show 2: "CAFile_from_bytes b = Some (Inl e)"
    by (simp add: CAFile_from_bytes_def)
  then show "files_loop b fs = Some (Inl e)"
    by (subst files_loop.simps) simp
qed

lemma payload_header_error:
  assumes "CAFilename_from_buffer b = Some (Inr (Some fname, b1))"
    and "CAArchive_from_buffer b1 = Inr (ar, b2)"
    and "CAPayloadHeader_from_buffer b2 = Inl e"
  shows "CAFile_from_bytes b = Some (Inl e)" and "files_loop b fs = Some (Inl e)"
proof -
  show "CAFile_from_bytes b = Some (Inl e)"
    using assms by (simp add: CAFile_from_bytes_def)
  then show "files_loop b fs = Some (Inl e)"
    by (subst files_loop.simps) simp
qed

lemma files_loop_error:
  assumes "CAArchive_from_buffer b = Inr (ar, b1)" and "files_loop b1 [] = Some (Inl e)"
  shows "CATar_from_bytes b = Some (Inl e)"
  using assms by (simp add: CATar_from_bytes_def)

lemma file_entry_header_error:
  assumes "CAFilename_from_buffer b = Some (Inr (Some fname, b1))"
    and "CAEntryHeader_from_buffer b1 = Inl e"
  shows "CAFile_from_bytes b = Some (Inl e)" and "files_loop b fs = Some (Inl e)"
proof -
  from assms(2) have "CAArchive_from_buffer b1 = Inl e"
    by (rule entry_header_error(2))
  with assms(1) show "CAFile_from_bytes b = Some (Inl e)"
    by (simp add: CAFile_from_bytes_def)
  then show "files_loop b fs = Some (Inl e)"
    by (subst files_loop.simps) simp
qed

lemma index_header_error:
  assumes "CAIndexHeader_from_buffer (b\<lparr>pos := 0\<rparr>) = Inl e"
  shows "CAIndex_from_buffer b = Inl e"
  using assms by (simp add: CAIndex_from_buffer_def CaFormatIndex_from_buffer_def Let_def)

lemma later_file_error:
  assumes "CAArchive_from_buffer b0 = Inr (ar0, b1)"
    and "loop_state n b1 [] = Some (bl, fsl)"
    and "files_loop bl fsl = Some (Inl e)"
  shows "files_loop b1 [] = Some (Inl e)" and "CATar_from_bytes b0 = Some (Inl e)"
proof -
  from loop_state_files_loop [OF assms(2)] assms(3) show "files_loop b1 [] = Some (Inl e)"
    by simp
  with assms(1) show "CATar_from_bytes b0 = Some (Inl e)"
    by (rule files_loop_error)
qed

lemma parse_caidx_index_error:
  assumes "CAIndex_from_buffer (BytesIO cy) = Inl e"
  shows "parse_caidx rd s cy = Some (Inl e)"
  using assms by (simp add: parse_caidx_def)

lemma parse_caidx_archive_error:
  assumes "CAIndex_from_buffer (BytesIO cx) = Inr (chunks, bx)"
    and "join_chunks rd s chunks = (Inr d, s')"
    and "CATar_from_bytes (BytesIO d) = Some (Inl e)"
  shows "parse_caidx rd s cx = Some (Inl e)"
  using assms by (simp add: parse_caidx_def)

subsection \<open>Reassembly\<close>

lemma traced_call:
  "traced rd (s, calls) c =
     (case rd s c of
        (Inl e, s') \<Rightarrow> (Inl e, (s', calls))
      | (Inr d, s') \<Rightarrow> (Inr d, (s', calls @ [(c, d)])))"
  by (simp add: traced_def)

lemma join_chunks_traced:
  assumes "join_chunks (traced rd) (s, calls) chunks = (Inr d, (s', calls'))"
  shows "\<exists>new. calls' = calls @ new \<and> map fst new = chunks \<and> d = concat (map snd new)
           \<and> join_chunks rd s chunks = (Inr d, s')"
  using assms
proof (induction chunks arbitrary: s calls d)
  case Nil
  then show ?case by simp
next
  case (Cons c cs)
  obtain r s1 where c0: "rd s c = (r, s1)"
    by (cases "rd s c") blast
  from Cons.prems c0 obtain x where r: "r = Inr x"
    by (cases r) (simp_all add: traced_call)
  obtain r2 st2 where j: "join_chunks (traced rd) (s1, calls @ [(c, x)]) cs = (r2, st2)"
    by (cases "join_chunks (traced rd) (s1, calls @ [(c, x)]) cs") blast
  from Cons.prems c0 r j obtain ds where r2: "r2 = Inr ds"
    by (cases r2) (simp_all add: traced_call)
  from Cons.prems c0 r j r2 have d: "d = x @ ds" and st2: "st2 = (s', calls')"
    by (simp_all add: traced_call)
  from c0 r have c: "rd s c = (Inr x, s1)"
    by simp
  from j r2 st2 have rest: "join_chunks (traced rd) (s1, calls @ [(c, x)]) cs = (Inr ds, (s', calls'))"
    by simp
  from Cons.IH [OF rest] obtain new where
    new: "calls' = (calls @ [(c, x)]) @ new \<and> map fst new = cs \<and> ds = concat (map snd new)
      \<and> join_chunks rd s1 cs = (Inr ds, s')" ..
  with c d have "calls' = calls @ ((c, x) # new) \<and> map fst ((c, x) # new) = c # cs
      \<and> d = concat (map snd ((c, x) # new)) \<and> join_chunks rd s (c # cs) = (Inr d, s')"
    by simp
  then show ?case by (rule exI)
qed

lemma length_concat_chunks:
  assumes "\<forall>(c, x)\<in>set calls. int (length x) = length_c c"
  shows "int (length (concat (map snd calls))) = sum_list (map length_c (map fst calls))"
  using assms by (induction calls) auto

subsection \<open>The example buffers, decoded\<close>

lemmas eval_defs = remaining_def u64_at_def advance_def magic_defs read_def Let_def
  CA_MAX_FILENAME_SIZE_def cont_def push_def PY_SSIZE_T_MAX_def

lemma example_archive_entry:
  "CAArchive_from_buffer \<lparr>buf = example_archive, pos = 0\<rparr>
     = Inr (\<lparr>entry = example_entry\<rparr>, \<lparr>buf = example_archive, pos = 64\<rparr>)"
  by (simp add: CAArchive_cases CAEntry_cases example_archive_def example_prefix_def example_entry_def eval_defs)

lemma example_archive_file:
  "CAFile_from_bytes \<lparr>buf = example_archive, pos = 64\<rparr>
     = Some (Inr (Some example_file, \<lparr>buf = example_archive, pos = 171\<rparr>))"
  by (simp add: CAFile_from_bytes_def CAFilename_cases filename_loop.simps CAArchive_cases
      CAEntry_cases CAPayloadHeader_from_buffer_def header_cases example_archive_def
      example_prefix_def example_file_def eval_defs)

lemma example_archive_goodbye:
  "CAFile_from_bytes \<lparr>buf = example_archive, pos = 171\<rparr>
     = Some (Inr (None, \<lparr>buf = example_archive, pos = 187\<rparr>))"
  by (simp add: CAFile_from_bytes_def CAFilename_cases example_archive_def example_prefix_def
      eval_defs)

lemma example_archive_files:
  "files_loop \<lparr>buf = example_archive, pos = 64\<rparr> []
     = Some (Inr ([example_file], \<lparr>buf = example_archive, pos = 187\<rparr>))"
proof -
  have "files_loop \<lparr>buf = example_archive, pos = 171\<rparr> [example_file]
          = Some (Inr ([example_file], \<lparr>buf = example_archive, pos = 187\<rparr>))"
    by (subst files_loop.simps) (simp add: example_archive_goodbye)
  then show ?thesis
    by (subst files_loop.simps) (simp add: example_archive_file)
qed

lemma example_archive_tar:
  "CATar_from_bytes (BytesIO example_archive)
     = Some (Inr (\<lparr>archive = \<lparr>entry = example_entry\<rparr>, files = [example_file]\<rparr>,
                  \<lparr>buf = example_archive, pos = 187\<rparr>))"
  by (simp add: CATar_from_bytes_def BytesIO_def example_archive_entry example_archive_files)

lemma length_example_archive: "length example_archive = 187"
  by (simp add: example_archive_def example_prefix_def)

lemma example_prefix_archive:
  "CAArchive_from_buffer \<lparr>buf = example_prefix @ rest, pos = 0\<rparr>
     = Inr (\<lparr>entry = example_entry\<rparr>, \<lparr>buf = example_prefix @ rest, pos = 64\<rparr>)"
  by (simp add: CAArchive_cases CAEntry_cases example_prefix_def example_entry_def eval_defs)

lemma example_prefix_filename:
  "CAFilename_from_buffer \<lparr>buf = example_prefix @ rest, pos = 64\<rparr>
     = Some (Inr (Some (file_filename example_file), \<lparr>buf = example_prefix @ rest, pos = 86\<rparr>))"
  by (simp add: CAFilename_cases filename_loop.simps example_prefix_def example_file_def
      eval_defs)

lemma example_prefix_entry:
  "CAArchive_from_buffer \<lparr>buf = example_prefix @ rest, pos = 86\<rparr>
     = Inr (\<lparr>entry = example_entry\<rparr>, \<lparr>buf = example_prefix @ rest, pos = 150\<rparr>)"
  by (simp add: CAArchive_cases CAEntry_cases example_prefix_def example_entry_def eval_defs)

text \<open>
  A read that the end of the buffer cuts short: the file decoder returns a record with
  the two bytes that are there, and the archive decoder fails at the next header.
\<close>

lemma example_short_file:
  "CAFile_from_bytes \<lparr>buf = example_short, pos = 64\<rparr>
     = Some (Inr (Some \<lparr>file_filename = file_filename example_file, data = [0x68, 0x65]\<rparr>,
                  \<lparr>buf = example_short, pos = 168\<rparr>))"
proof -
  have "CAPayloadHeader_from_buffer \<lparr>buf = example_short, pos = 150\<rparr>
          = Inr (Some \<lparr>size_h = 21, type_h = CA_FORMAT_PAYLOAD\<rparr>,
                 \<lparr>buf = example_short, pos = 166\<rparr>)"
    by (simp add: CAPayloadHeader_from_buffer_def header_cases example_short_def
        example_prefix_def eval_defs)
  moreover have "read \<lparr>buf = example_short, pos = 166\<rparr> (21 - 16)
                   = ([0x68, 0x65], \<lparr>buf = example_short, pos = 168\<rparr>)"
    by (simp add: example_short_def example_prefix_def eval_defs)
  ultimately show ?thesis
    using example_prefix_filename example_prefix_entry
    by (simp add: CAFile_from_bytes_def example_short_def PY_SSIZE_T_MAX_def)
qed

lemma example_short_tar:
  "CATar_from_bytes (BytesIO example_short) = Some (Inl StructError)"
proof -
  have "remaining \<lparr>buf = example_short, pos = 168\<rparr> < 16"
    by (simp add: remaining_def example_short_def example_prefix_def)
  then have "files_loop \<lparr>buf = example_short, pos = 168\<rparr>
               [\<lparr>file_filename = file_filename example_file, data = [0x68, 0x65]\<rparr>]
             = Some (Inl StructError)"
    by (subst files_loop.simps) (simp add: CAFile_truncated)
  then have "files_loop \<lparr>buf = example_short, pos = 64\<rparr> [] = Some (Inl StructError)"
    by (subst files_loop.simps) (simp add: example_short_file)
  then show ?thesis
    using example_prefix_archive
    by (simp add: CATar_from_bytes_def BytesIO_def example_short_def)
qed

lemma example_index_preamble_value:
  "CaFormatIndex_from_buffer (\<lparr>buf = example_index_preamble @ rest, pos = p\<rparr>\<lparr>pos := 0\<rparr>)
     = Inr (\<lparr>index_header = Some \<lparr>size_h = 48, type_h = CA_FORMAT_INDEX\<rparr>,
             index_flags = 0xb000000000000000, chunk_size_min = 16384,
             chunk_size_avg = 65536, chunk_size_max = 262144\<rparr>,
            \<lparr>buf = example_index_preamble @ rest, pos = 48\<rparr>)"
  by (simp add: CaFormatIndex_cases example_index_preamble_def eval_defs)

lemma example_index_value:
  "CAIndex_from_buffer (BytesIO example_index)
     = Inr ([\<lparr>sha = replicate 32 0xaa, offset = 0, length_c = 100\<rparr>,
             \<lparr>sha = replicate 32 0xbb, offset = 100, length_c = 87\<rparr>],
            \<lparr>buf = example_index, pos = 144\<rparr>)"
proof -
  have "CAIndex_from_buffer (BytesIO example_index)
          = Inr (map (table_chunk (BytesIO example_index\<lparr>pos := 64\<rparr>) 0)
                   [0..<nat (num_chunks (int (length (buf (BytesIO example_index)))))],
                 BytesIO example_index
                   \<lparr>pos := 64 + 40 * nat (num_chunks (int (length (buf (BytesIO example_index)))))\<rparr>)"
    by (rule CAIndex_value)
      (simp_all add: BytesIO_def example_index_def example_index_preamble_def
        example_table_header_def eval_defs)
  moreover have "length example_index = 184"
    by (simp add: example_index_def example_index_preamble_def example_table_header_def)
  moreover have "nat (num_chunks 184) = 2"
    by (simp add: num_chunks_def CA_HEADER_LEN_def CA_TABLE_MIN_LEN_def
        CA_TABLE_HEADER_LEN_def CA_TABLE_ENTRY_LEN_def)
  moreover have "[0..<2] = [0, 1]"
    by (simp add: upt_rec)
  ultimately show ?thesis
    by (simp add: BytesIO_def table_chunk_def u64_at_def example_index_def
        example_index_preamble_def example_table_header_def)
qed

lemma length_example_index: "length example_index = 184"
  by (simp add: example_index_def example_index_preamble_def example_table_header_def)

lemma example_index_swapped_preamble:
  "CaFormatIndex_from_buffer (BytesIO example_index_swapped\<lparr>pos := 0\<rparr>)
     = Inr (\<lparr>index_header = Some \<lparr>size_h = 48, type_h = CA_FORMAT_INDEX\<rparr>,
             index_flags = 0xb000000000000000, chunk_size_min = 16384,
             chunk_size_avg = 65536, chunk_size_max = 262144\<rparr>,
            \<lparr>buf = example_index_swapped, pos = 48\<rparr>)"
  using example_index_preamble_value [of _ 0]
  by (simp add: BytesIO_def example_index_swapped_def)

lemma example_index_cut_preamble:
  "CaFormatIndex_from_buffer (BytesIO example_index_cut\<lparr>pos := 0\<rparr>)
     = Inr (\<lparr>index_header = Some \<lparr>size_h = 48, type_h = CA_FORMAT_INDEX\<rparr>,
             index_flags = 0xb000000000000000, chunk_size_min = 16384,
             chunk_size_avg = 65536, chunk_size_max = 262144\<rparr>,
            \<lparr>buf = example_index_cut, pos = 48\<rparr>)"
  using example_index_preamble_value [of _ 0]
  by (simp add: BytesIO_def example_index_cut_def)

lemma example_index_empty_value:
  "CAIndex_from_buffer (BytesIO example_index_empty)
     = Inr ([], \<lparr>buf = example_index_empty, pos = 64\<rparr>)"
proof -
  have "CAIndex_from_buffer (BytesIO example_index_empty)
          = Inr (map (table_chunk (BytesIO example_index_empty\<lparr>pos := 64\<rparr>) 0)
                   [0..<nat (num_chunks (int (length (buf (BytesIO example_index_empty)))))],
                 BytesIO example_index_empty
                   \<lparr>pos := 64 + 40 * nat (num_chunks (int (length (buf (BytesIO example_index_empty)))))\<rparr>)"
    by (rule CAIndex_value)
      (simp_all add: BytesIO_def example_index_empty_def example_index_preamble_def
        example_table_header_def eval_defs)
  moreover have "length example_index_empty = 104"
    by (simp add: example_index_empty_def example_index_preamble_def example_table_header_def)
  moreover have "nat (num_chunks 104) = 0"
    by (simp add: num_chunks_def CA_HEADER_LEN_def CA_TABLE_MIN_LEN_def
        CA_TABLE_HEADER_LEN_def CA_TABLE_ENTRY_LEN_def)
  ultimately show ?thesis
    by (simp add: BytesIO_def)
qed

lemma example_index_unordered_value:
  "CAIndex_from_buffer (BytesIO example_index_unordered)
     = Inr ([\<lparr>sha = replicate 32 0xaa, offset = 0, length_c = 16\<rparr>,
             \<lparr>sha = replicate 32 0xbb, offset = 16, length_c = - 8\<rparr>,
             \<lparr>sha = replicate 32 0xcc, offset = 8, length_c = 32\<rparr>],
            \<lparr>buf = example_index_unordered, pos = 184\<rparr>)"
proof -
  have "CAIndex_from_buffer (BytesIO example_index_unordered)
          = Inr (map (table_chunk (BytesIO example_index_unordered\<lparr>pos := 64\<rparr>) 0)
                   [0..<nat (num_chunks (int (length (buf (BytesIO example_index_unordered)))))],
                 BytesIO example_index_unordered
                   \<lparr>pos := 64 + 40 * nat (num_chunks (int (length (buf (BytesIO example_index_unordered)))))\<rparr>)"
    by (rule CAIndex_value)
      (simp_all add: BytesIO_def example_index_unordered_def example_index_preamble_def
        example_table_header_def eval_defs)
  moreover have "length example_index_unordered = 224"
    by (simp add: example_index_unordered_def example_index_preamble_def
        example_table_header_def)
  moreover have "nat (num_chunks 224) = 3"
    by (simp add: num_chunks_def CA_HEADER_LEN_def CA_TABLE_MIN_LEN_def
        CA_TABLE_HEADER_LEN_def CA_TABLE_ENTRY_LEN_def)
  moreover have "[0..<3] = [0, 1, 2]"
    by (simp add: upt_rec)
  ultimately show ?thesis
    by (simp add: BytesIO_def table_chunk_def u64_at_def example_index_unordered_def
        example_index_preamble_def example_table_header_def)
qed

lemma example_reader_chunks:
  "join_chunks (traced example_reader) (0, [])
     [\<lparr>sha = replicate 32 0xaa, offset = 0, length_c = 100\<rparr>,
      \<lparr>sha = replicate 32 0xbb, offset = 100, length_c = 87\<rparr>]
   = (Inr example_archive,
      (2, [(\<lparr>sha = replicate 32 0xaa, offset = 0, length_c = 100\<rparr>, take 100 example_archive),
           (\<lparr>sha = replicate 32 0xbb, offset = 100, length_c = 87\<rparr>, drop 100 example_archive)]))"
  by (simp add: traced_call example_reader_def)

lemma example_head_filename:
  "CAFilename_from_buffer \<lparr>buf = example_head @ rest, pos = 64\<rparr>
     = Some (Inr (Some (file_filename example_file), \<lparr>buf = example_head @ rest, pos = 86\<rparr>))"
  by (simp add: CAFilename_cases filename_loop.simps example_head_def example_file_def
      eval_defs)

lemma example_one_file_archive:
  "CAArchive_from_buffer \<lparr>buf = example_one_file @ rest, pos = 0\<rparr>
     = Inr (\<lparr>entry = example_entry\<rparr>, \<lparr>buf = example_one_file @ rest, pos = 64\<rparr>)"
  using example_prefix_archive by (simp add: example_one_file_def)

lemma example_one_file_first:
  "CAFile_from_bytes \<lparr>buf = example_one_file @ rest, pos = 64\<rparr>
     = Some (Inr (Some example_file, \<lparr>buf = example_one_file @ rest, pos = 171\<rparr>))"
  by (simp add: CAFile_from_bytes_def CAFilename_cases filename_loop.simps CAArchive_cases
      CAEntry_cases CAPayloadHeader_from_buffer_def header_cases example_one_file_def
      example_prefix_def example_file_def eval_defs)

lemma example_one_file_state:
  "loop_state 1 \<lparr>buf = example_one_file @ rest, pos = 64\<rparr> []
     = Some (\<lparr>buf = example_one_file @ rest, pos = 171\<rparr>, [example_file])"
  by (simp add: example_one_file_first)

lemma length_example_one_file: "length example_one_file = 171"
  by (simp add: example_one_file_def example_prefix_def)

lemma slice_reader_chunks:
  assumes "length bs \<le> 187"
  shows "join_chunks (slice_reader bs) s
           [\<lparr>sha = replicate 32 0xaa, offset = 0, length_c = 100\<rparr>,
            \<lparr>sha = replicate 32 0xbb, offset = 100, length_c = 87\<rparr>]
         = (Inr bs, Suc (Suc s))"
  using assms by (simp add: slice_reader_def)

lemma example_two_files_second:
  "CAFile_from_bytes \<lparr>buf = example_two_files, pos = 171\<rparr>
     = Some (Inr (Some example_file_b, \<lparr>buf = example_two_files, pos = 272\<rparr>))"
  by (simp add: CAFile_from_bytes_def CAFilename_cases filename_loop.simps CAArchive_cases
      CAEntry_cases CAPayloadHeader_from_buffer_def header_cases example_two_files_def
      example_one_file_def example_prefix_def example_file_b_def eval_defs)

lemma example_two_files_goodbye:
  "CAFile_from_bytes \<lparr>buf = example_two_files, pos = 272\<rparr>
     = Some (Inr (None, \<lparr>buf = example_two_files, pos = 288\<rparr>))"
  by (simp add: CAFile_from_bytes_def CAFilename_cases example_two_files_def
      example_one_file_def example_prefix_def eval_defs)

lemma example_two_files_tar:
  "CATar_from_bytes (BytesIO example_two_files)
     = Some (Inr (\<lparr>archive = \<lparr>entry = example_entry\<rparr>, files = [example_file, example_file_b]\<rparr>,
                  \<lparr>buf = example_two_files, pos = 288\<rparr>))"
proof -
  have "files_loop \<lparr>buf = example_two_files, pos = 272\<rparr> [example_file, example_file_b]
          = Some (Inr ([example_file, example_file_b], \<lparr>buf = example_two_files, pos = 288\<rparr>))"
    by (subst files_loop.simps) (simp add: example_two_files_goodbye)
  then have "files_loop \<lparr>buf = example_two_files, pos = 171\<rparr> [example_file]
          = Some (Inr ([example_file, example_file_b], \<lparr>buf = example_two_files, pos = 288\<rparr>))"
    by (subst files_loop.simps) (simp add: example_two_files_second)
  moreover have "CAFile_from_bytes \<lparr>buf = example_two_files, pos = 64\<rparr>
          = Some (Inr (Some example_file, \<lparr>buf = example_two_files, pos = 171\<rparr>))"
    using example_one_file_first by (simp add: example_two_files_def)
  ultimately have "files_loop \<lparr>buf = example_two_files, pos = 64\<rparr> []
          = Some (Inr ([example_file, example_file_b], \<lparr>buf = example_two_files, pos = 288\<rparr>))"
    by (subst files_loop.simps) simp
  moreover have "CAArchive_from_buffer \<lparr>buf = example_two_files, pos = 0\<rparr>
     = Inr (\<lparr>entry = example_entry\<rparr>, \<lparr>buf = example_two_files, pos = 64\<rparr>)"
    using example_one_file_archive by (simp add: example_two_files_def)
  ultimately show ?thesis
    by (simp add: CATar_from_bytes_def BytesIO_def)
qed

lemma example_two_files_pos1: "payload_pos example_two_files 64 = 150"
  by (simp add: payload_pos_def name_span_def name_len_def
      example_two_files_def example_one_file_def example_prefix_def CA_MAX_FILENAME_SIZE_def)

lemma example_two_files_size1: "le_int (take 8 (drop 150 example_two_files)) = 21"
  by (simp add: example_two_files_def example_one_file_def example_prefix_def)

lemma example_two_files_pos2: "payload_pos example_two_files 171 = 253"
  by (simp add: payload_pos_def name_span_def name_len_def
      example_two_files_def example_one_file_def example_prefix_def CA_MAX_FILENAME_SIZE_def)

lemma example_two_files_positions:
  "file_positions example_two_files 64 (length [example_file, example_file_b]) = [150, 253]"
  by (simp add: example_two_files_pos1 example_two_files_size1 example_two_files_pos2)

lemma example_second_swapped_loop:
  "files_loop \<lparr>buf = example_second_swapped, pos = 171\<rparr> [example_file]
     = Some (Inl AssertionError)"
proof -
  have "bad_magic CA_FORMAT_FILENAME \<lparr>buf = example_second_swapped, pos = 171\<rparr>"
    by (simp add: bad_magic_def example_second_swapped_def example_one_file_def
        example_prefix_def eval_defs)
  then have "CAFilenameHeader_from_buffer \<lparr>buf = example_second_swapped, pos = 171\<rparr>
               = Inl AssertionError"
    by (simp add: CAFilenameHeader_from_buffer_def bad_magic_header)
  then show ?thesis
    by (rule filename_header_error(3))
qed

lemma example_second_swapped_tar:
  "CATar_from_bytes (BytesIO example_second_swapped) = Some (Inl AssertionError)"
proof (rule later_file_error(2))
  show "CAArchive_from_buffer (BytesIO example_second_swapped)
          = Inr (\<lparr>entry = example_entry\<rparr>, \<lparr>buf = example_second_swapped, pos = 64\<rparr>)"
    using example_one_file_archive by (simp add: BytesIO_def example_second_swapped_def)
  show "loop_state 1 \<lparr>buf = example_second_swapped, pos = 64\<rparr> []
          = Some (\<lparr>buf = example_second_swapped, pos = 171\<rparr>, [example_file])"
    using example_one_file_state by (simp add: example_second_swapped_def)
  show "files_loop \<lparr>buf = example_second_swapped, pos = 171\<rparr> [example_file]
          = Some (Inl AssertionError)"
    by (rule example_second_swapped_loop)
qed

lemma example_second_cut_loop:
  "files_loop \<lparr>buf = example_second_cut, pos = 171\<rparr> [example_file] = Some (Inl StructError)"
proof -
  have "remaining \<lparr>buf = example_second_cut, pos = 171\<rparr> < 16"
    by (simp add: remaining_def example_second_cut_def length_example_one_file)
  then have "CAFile_from_bytes \<lparr>buf = example_second_cut, pos = 171\<rparr> = Some (Inl StructError)"
    by (rule CAFile_truncated)
  then show ?thesis
    by (subst files_loop.simps) simp
qed

lemma example_second_cut_tar:
  "CATar_from_bytes (BytesIO example_second_cut) = Some (Inl StructError)"
proof (rule later_file_error(2))
  show "CAArchive_from_buffer (BytesIO example_second_cut)
          = Inr (\<lparr>entry = example_entry\<rparr>, \<lparr>buf = example_second_cut, pos = 64\<rparr>)"
    using example_one_file_archive by (simp add: BytesIO_def example_second_cut_def)
  show "loop_state 1 \<lparr>buf = example_second_cut, pos = 64\<rparr> []
          = Some (\<lparr>buf = example_second_cut, pos = 171\<rparr>, [example_file])"
    using example_one_file_state by (simp add: example_second_cut_def)
  show "files_loop \<lparr>buf = example_second_cut, pos = 171\<rparr> [example_file]
          = Some (Inl StructError)"
    by (rule example_second_cut_loop)
qed

lemma example_index_swapped_value:
  "CAIndex_from_buffer (BytesIO example_index_swapped) = Inl AssertionError"
proof (rule table_header_error [OF example_index_swapped_preamble])
  have "bad_magic CA_FORMAT_TABLE \<lparr>buf = example_index_swapped, pos = 48\<rparr>"
    by (simp add: bad_magic_def example_index_swapped_def example_index_preamble_def eval_defs)
  then show "CATableHeader_from_buffer \<lparr>buf = example_index_swapped, pos = 48\<rparr>
               = Inl AssertionError"
    by (simp add: CATableHeader_from_buffer_def bad_magic_header)
qed

lemma example_index_cut_value:
  "CAIndex_from_buffer (BytesIO example_index_cut) = Inl StructError"
proof (rule table_header_error [OF example_index_cut_preamble])
  have "remaining \<lparr>buf = example_index_cut, pos = 48\<rparr> < 16"
    by (simp add: remaining_def example_index_cut_def example_index_preamble_def)
  then show "CATableHeader_from_buffer \<lparr>buf = example_index_cut, pos = 48\<rparr> = Inl StructError"
    by (simp add: CATableHeader_from_buffer_def header_cases)
qed

section \<open>The claims\<close>

subsection \<open>The goodbye magic and the tail marker\<close>

text \<open>
  C1 (as the code has it). In each of the five contexts, a header of 16 bytes whose
  magic is the goodbye magic \<open>0xdfd35c5e8327c403\<close> makes the header decoder return
  \<open>None\<close>, not an error. The value \<open>0xe75b9e112f17417\<close> of
  \<open>CA_FORMAT_TABLE_TAIL_MARKER\<close> is not looked for by the decoder: with it in the
  magic field the assertion on the magic fails in each of the five contexts.
\<close>

theorem goodbye_is_terminal_tail_marker_is_not:
  assumes "M \<in> set header_types"
    and "16 \<le> remaining b" and "u64_at b 8 = CA_FORMAT_GOODBYE"
    and "16 \<le> remaining b'" and "u64_at b' 8 = CA_FORMAT_TABLE_TAIL_MARKER"
  shows "MagicCAFormatHeader_from_buffer M b = Inr (None, advance b 16)
       \<and> MagicCAFormatHeader_from_buffer M b' = Inl AssertionError"
proof -
  have "CA_FORMAT_TABLE_TAIL_MARKER \<noteq> CA_FORMAT_GOODBYE"
    by (simp add: magic_defs)
  moreover have "CA_FORMAT_TABLE_TAIL_MARKER \<noteq> M"
    using assms(1) by (auto simp: header_types_def magic_defs)
  ultimately show ?thesis
    using assms(2-5) by (simp add: header_cases)
qed

text \<open>
  An instance, where a payload header is expected: the goodbye magic gives \<open>None\<close>,
  the value of the tail marker an assertion error.
\<close>

theorem goodbye_is_terminal_tail_marker_is_not_witness:
  "MagicCAFormatHeader_from_buffer CA_FORMAT_PAYLOAD
     (BytesIO [0, 0, 0, 0, 0, 0, 0, 0, 0x03, 0xc4, 0x27, 0x83, 0x5e, 0x5c, 0xd3, 0xdf])
   = Inr (None,
       advance (BytesIO [0, 0, 0, 0, 0, 0, 0, 0, 0x03, 0xc4, 0x27, 0x83, 0x5e, 0x5c, 0xd3, 0xdf])
         16)
   \<and> MagicCAFormatHeader_from_buffer CA_FORMAT_PAYLOAD
     (BytesIO [0, 0, 0, 0, 0, 0, 0, 0, 0x17, 0x74, 0xf1, 0x12, 0xe1, 0xb9, 0x75, 0x0e])
   = Inl AssertionError"
proof (rule goodbye_is_terminal_tail_marker_is_not)
  show "CA_FORMAT_PAYLOAD \<in> set header_types"
    by (simp add: header_types_def)
qed (simp_all add: remaining_def u64_at_def BytesIO_def magic_defs)

text \<open>
  The claim as it is written fails: where a file name is expected, a header whose magic
  field holds \<open>0xe75b9e112f17417\<close> is an assertion error, not \<open>None\<close>.
\<close>

theorem tail_marker_counterexample:
  "u64_at (BytesIO [0, 0, 0, 0, 0, 0, 0, 0, 0x17, 0x74, 0xf1, 0x12, 0xe1, 0xb9, 0x75, 0x0e]) 8
     = 0xe75b9e112f17417
   \<and> MagicCAFormatHeader_from_buffer CA_FORMAT_FILENAME
       (BytesIO [0, 0, 0, 0, 0, 0, 0, 0, 0x17, 0x74, 0xf1, 0x12, 0xe1, 0xb9, 0x75, 0x0e])
     = Inl AssertionError"
  by (simp add: MagicCAFormatHeader_from_buffer_def read_def unpack_QQ_def field_def
      u64_at_def BytesIO_def CA_TABLE_HEADER_LEN_def magic_defs Let_def)

subsection \<open>An unexpected magic\<close>

text \<open>
  C2. A header of 16 bytes whose magic is neither the goodbye magic nor the magic
  expected where it is read makes the header decoder fail with the assertion error, and
  every decoder around it fails with it. For the index header and the table header:
  the index decoder and \<^verbatim>\<open>parse_caidx\<close>. For the entry header of the archive: the
  entry, the archive and the whole decode. For the three headers of a file (file name,
  entry, payload): the file decoder and the loop over the files, and, after any number
  of files decoded before, the whole decode of the archive and \<^verbatim>\<open>parse_caidx\<close>.
\<close>

theorem unexpected_magic_aborts:
  assumes "bad_magic M b"
    and "bad_magic CA_FORMAT_INDEX bi"
    and "CaFormatIndex_from_buffer (bt\<lparr>pos := 0\<rparr>) = Inr (fi, bt1)"
    and "bad_magic CA_FORMAT_TABLE bt1"
    and "bad_magic CA_FORMAT_ENTRY be"
    and "bad_magic CA_FORMAT_FILENAME bf"
    and "CAFilename_from_buffer bp = Some (Inr (Some fname, bp1))"
    and "CAArchive_from_buffer bp1 = Inr (ar, bp2)"
    and "bad_magic CA_FORMAT_PAYLOAD bp2"
    and "CAFilename_from_buffer bq = Some (Inr (Some qname, bq1))"
    and "bad_magic CA_FORMAT_ENTRY bq1"
    and "bad_magic CA_FORMAT_INDEX (bj\<lparr>pos := 0\<rparr>)"
    and "CAArchive_from_buffer b0 = Inr (ar0, b1)"
    and "loop_state n b1 [] = Some (bl, fsl)"
    and "files_loop bl fsl = Some (Inl AssertionError)"
    and "CAIndex_from_buffer (BytesIO cx) = Inr (chunks, bx)"
    and "join_chunks rd s chunks = (Inr d, s')"
    and "CATar_from_bytes (BytesIO d) = Some (Inl AssertionError)"
    and "CAIndex_from_buffer (BytesIO cy) = Inl AssertionError"
  shows "MagicCAFormatHeader_from_buffer M b = Inl AssertionError
       \<and> CaFormatIndex_from_buffer bi = Inl AssertionError
       \<and> CAIndex_from_buffer bt = Inl AssertionError
       \<and> CAEntry_from_buffer be = Inl AssertionError
       \<and> CAArchive_from_buffer be = Inl AssertionError
       \<and> CATar_from_bytes be = Some (Inl AssertionError)
       \<and> CAFilename_from_buffer bf = Some (Inl AssertionError)
       \<and> CAFile_from_bytes bf = Some (Inl AssertionError)
       \<and> files_loop bf fs = Some (Inl AssertionError)
       \<and> CAFile_from_bytes bp = Some (Inl AssertionError)
       \<and> files_loop bp fs = Some (Inl AssertionError)
       \<and> CAFile_from_bytes bq = Some (Inl AssertionError)
       \<and> files_loop bq fs = Some (Inl AssertionError)
       \<and> CAIndex_from_buffer bj = Inl AssertionError
       \<and> files_loop b1 [] = Some (Inl AssertionError)
       \<and> CATar_from_bytes b0 = Some (Inl AssertionError)
       \<and> parse_caidx rd s cx = Some (Inl AssertionError)
       \<and> parse_caidx rd s cy = Some (Inl AssertionError)"
proof -
  have "CaFormatIndex_from_buffer bi = Inl AssertionError"
    using assms(2) by (simp add: bad_magic_def CaFormatIndex_cases)
  moreover have "CAIndex_from_buffer bt = Inl AssertionError"
    using assms(3) bad_magic_header [OF assms(4)]
    by (intro table_header_error) (simp_all add: CATableHeader_from_buffer_def)
  moreover have e: "CAEntryHeader_from_buffer be = Inl AssertionError"
    using bad_magic_header [OF assms(5)] by (simp add: CAEntryHeader_from_buffer_def)
  moreover have f: "CAFilenameHeader_from_buffer bf = Inl AssertionError"
    using bad_magic_header [OF assms(6)] by (simp add: CAFilenameHeader_from_buffer_def)
  moreover have p: "CAPayloadHeader_from_buffer bp2 = Inl AssertionError"
    using bad_magic_header [OF assms(9)] by (simp add: CAPayloadHeader_from_buffer_def)
  moreover have q: "CAEntryHeader_from_buffer bq1 = Inl AssertionError"
    using bad_magic_header [OF assms(11)] by (simp add: CAEntryHeader_from_buffer_def)
  moreover have "CAIndex_from_buffer bj = Inl AssertionError"
    using bad_magic_header [OF assms(12)]
    by (intro index_header_error) (simp add: CAIndexHeader_from_buffer_def)
  ultimately show ?thesis
    using bad_magic_header [OF assms(1)] entry_header_error [OF e] filename_header_error [OF f]
      payload_header_error [OF assms(7,8) p] file_entry_header_error [OF assms(10) q]
      later_file_error [OF assms(13,14,15)] parse_caidx_archive_error [OF assms(16,17,18)]
      parse_caidx_index_error [OF assms(19)]
    by simp
qed

text \<open>
  An instance: the payload magic where the magic of a file name or of an entry is
  expected, the magic of the table where the index header is expected, the magic of an
  entry where the table header is expected (\<open>example_index_swapped\<close>), the payload
  magic where the entry of a file is expected (\<open>example_entry_swapped\<close>), the magic
  of a file name where the payload header is expected (\<open>example_swapped\<close>), and the
  magic of an entry after the first file of an archive (\<open>example_second_swapped\<close>),
  also when that archive comes from the two chunks of \<open>example_index\<close>.
\<close>

theorem unexpected_magic_aborts_witness:
  "MagicCAFormatHeader_from_buffer CA_FORMAT_FILENAME
     (BytesIO [21, 0, 0, 0, 0, 0, 0, 0, 0xc9, 0xff, 0xdc, 0xd6, 0x93, 0x1d, 0x9e, 0x8b])
     = Inl AssertionError
   \<and> CaFormatIndex_from_buffer (BytesIO example_table_header) = Inl AssertionError
   \<and> CAIndex_from_buffer (BytesIO example_table_header) = Inl AssertionError
   \<and> CAIndex_from_buffer (BytesIO example_index_swapped) = Inl AssertionError
   \<and> CATar_from_bytes
       (BytesIO [21, 0, 0, 0, 0, 0, 0, 0, 0xc9, 0xff, 0xdc, 0xd6, 0x93, 0x1d, 0x9e, 0x8b])
     = Some (Inl AssertionError)
   \<and> CAFile_from_bytes
       (BytesIO [21, 0, 0, 0, 0, 0, 0, 0, 0xc9, 0xff, 0xdc, 0xd6, 0x93, 0x1d, 0x9e, 0x8b])
     = Some (Inl AssertionError)
   \<and> CAFile_from_bytes \<lparr>buf = example_entry_swapped, pos = 64\<rparr> = Some (Inl AssertionError)
   \<and> files_loop \<lparr>buf = example_entry_swapped, pos = 64\<rparr> [] = Some (Inl AssertionError)
   \<and> files_loop \<lparr>buf = example_swapped, pos = 64\<rparr> [] = Some (Inl AssertionError)
   \<and> CATar_from_bytes (BytesIO example_second_swapped) = Some (Inl AssertionError)
   \<and> parse_caidx (slice_reader example_second_swapped) 0 example_index
       = Some (Inl AssertionError)
   \<and> parse_caidx (slice_reader example_second_swapped) 0 example_index_swapped
       = Some (Inl AssertionError)"
proof -
  let ?h = "BytesIO [21, 0, 0, 0, 0, 0, 0, 0, 0xc9, 0xff, 0xdc, 0xd6, 0x93, 0x1d, 0x9e, 0x8b]"
  have h1: "bad_magic CA_FORMAT_FILENAME ?h"
    by (simp add: bad_magic_def BytesIO_def eval_defs)
  have h2: "bad_magic CA_FORMAT_INDEX (BytesIO example_table_header)"
    by (simp add: bad_magic_def BytesIO_def example_table_header_def eval_defs)
  have h4: "bad_magic CA_FORMAT_TABLE \<lparr>buf = example_index_swapped, pos = 48\<rparr>"
    by (simp add: bad_magic_def example_index_swapped_def example_index_preamble_def eval_defs)
  have h5: "bad_magic CA_FORMAT_ENTRY ?h"
    by (simp add: bad_magic_def BytesIO_def eval_defs)
  have h7: "CAFilename_from_buffer \<lparr>buf = example_swapped, pos = 64\<rparr>
              = Some (Inr (Some (file_filename example_file), \<lparr>buf = example_swapped, pos = 86\<rparr>))"
    using example_prefix_filename by (simp add: example_swapped_def)
  have h8: "CAArchive_from_buffer \<lparr>buf = example_swapped, pos = 86\<rparr>
              = Inr (\<lparr>entry = example_entry\<rparr>, \<lparr>buf = example_swapped, pos = 150\<rparr>)"
    using example_prefix_entry by (simp add: example_swapped_def)
  have h9: "bad_magic CA_FORMAT_PAYLOAD \<lparr>buf = example_swapped, pos = 150\<rparr>"
    by (simp add: bad_magic_def example_swapped_def example_prefix_def eval_defs)
  have h10: "CAFilename_from_buffer \<lparr>buf = example_entry_swapped, pos = 64\<rparr>
              = Some (Inr (Some (file_filename example_file),
                           \<lparr>buf = example_entry_swapped, pos = 86\<rparr>))"
    using example_head_filename by (simp add: example_entry_swapped_def)
  have h11: "bad_magic CA_FORMAT_ENTRY \<lparr>buf = example_entry_swapped, pos = 86\<rparr>"
    by (simp add: bad_magic_def example_entry_swapped_def example_head_def eval_defs)
  have h12: "bad_magic CA_FORMAT_INDEX (BytesIO example_table_header\<lparr>pos := 0\<rparr>)"
    using h2 by (simp add: BytesIO_def)
  have h13: "CAArchive_from_buffer (BytesIO example_second_swapped)
          = Inr (\<lparr>entry = example_entry\<rparr>, \<lparr>buf = example_second_swapped, pos = 64\<rparr>)"
    using example_one_file_archive by (simp add: BytesIO_def example_second_swapped_def)
  have h14: "loop_state 1 \<lparr>buf = example_second_swapped, pos = 64\<rparr> []
          = Some (\<lparr>buf = example_second_swapped, pos = 171\<rparr>, [example_file])"
    using example_one_file_state by (simp add: example_second_swapped_def)
  have h17: "join_chunks (slice_reader example_second_swapped) 0
           [\<lparr>sha = replicate 32 0xaa, offset = 0, length_c = 100\<rparr>,
            \<lparr>sha = replicate 32 0xbb, offset = 100, length_c = 87\<rparr>]
         = (Inr example_second_swapped, Suc (Suc 0))"
    by (rule slice_reader_chunks) (simp add: example_second_swapped_def length_example_one_file)
  from unexpected_magic_aborts
    [OF h1 h2 example_index_swapped_preamble h4 h5 h1 h7 h8 h9 h10 h11 h12 h13 h14
      example_second_swapped_loop example_index_value h17 example_second_swapped_tar
      example_index_swapped_value, where fs = "[]"]
  show ?thesis
    by simp
qed

subsection \<open>A header cut short\<close>

text \<open>
  C3. With fewer than 16 bytes left where a header is read, the header decoder fails
  with \<^verbatim>\<open>struct.error\<close>: it returns no header made of the bytes that are there.
  Every decoder around it fails with it, for the index header and the table header, for
  the entry header of the archive, and for the three headers of a file (file name,
  entry, payload) after any number of files, up to \<^verbatim>\<open>parse_caidx\<close>. In particular an
  index with no chunk gives the empty stream, on which the archive decoder fails with
  \<^verbatim>\<open>struct.error\<close> at the entry header of the archive.
\<close>

theorem truncated_header_raises:
  assumes "remaining b < 16"
    and "CaFormatIndex_from_buffer (bt\<lparr>pos := 0\<rparr>) = Inr (fi, bt1)"
    and "remaining bt1 < 16"
    and "CAFilename_from_buffer bp = Some (Inr (Some fname, bp1))"
    and "CAArchive_from_buffer bp1 = Inr (ar, bp2)"
    and "remaining bp2 < 16"
    and "CAIndex_from_buffer (BytesIO caidx_bytes) = Inr ([], bz)"
    and "CAFilename_from_buffer bq = Some (Inr (Some qname, bq1))"
    and "remaining bq1 < 16"
    and "length (buf bj) < 16"
    and "CAArchive_from_buffer b0 = Inr (ar0, b1)"
    and "loop_state n b1 [] = Some (bl, fsl)"
    and "files_loop bl fsl = Some (Inl StructError)"
    and "CAIndex_from_buffer (BytesIO cx) = Inr (chunks, bx)"
    and "join_chunks rd s chunks = (Inr d, s')"
    and "CATar_from_bytes (BytesIO d) = Some (Inl StructError)"
    and "CAIndex_from_buffer (BytesIO cy) = Inl StructError"
  shows "MagicCAFormatHeader_from_buffer M b = Inl StructError
       \<and> CaFormatIndex_from_buffer b = Inl StructError
       \<and> CAIndex_from_buffer bt = Inl StructError
       \<and> CAEntry_from_buffer b = Inl StructError
       \<and> CAArchive_from_buffer b = Inl StructError
       \<and> CATar_from_bytes b = Some (Inl StructError)
       \<and> CAFilename_from_buffer b = Some (Inl StructError)
       \<and> CAFile_from_bytes b = Some (Inl StructError)
       \<and> files_loop b fs = Some (Inl StructError)
       \<and> CAFile_from_bytes bp = Some (Inl StructError)
       \<and> files_loop bp fs = Some (Inl StructError)
       \<and> join_chunks rd s [] = (Inr [], s)
       \<and> CATar_from_bytes (BytesIO []) = Some (Inl StructError)
       \<and> parse_caidx rd s caidx_bytes = Some (Inl StructError)
       \<and> CAFile_from_bytes bq = Some (Inl StructError)
       \<and> files_loop bq fs = Some (Inl StructError)
       \<and> CAIndex_from_buffer bj = Inl StructError
       \<and> files_loop b1 [] = Some (Inl StructError)
       \<and> CATar_from_bytes b0 = Some (Inl StructError)
       \<and> parse_caidx rd s cx = Some (Inl StructError)
       \<and> parse_caidx rd s cy = Some (Inl StructError)"
proof -
  have h: "remaining c < 16 \<Longrightarrow> MagicCAFormatHeader_from_buffer N c = Inl StructError" for N c
    by (simp add: header_cases)
  have "CAIndex_from_buffer bt = Inl StructError"
    using assms(2) h [OF assms(3)]
    by (intro table_header_error) (simp_all add: CATableHeader_from_buffer_def)
  moreover have e: "CAEntryHeader_from_buffer b = Inl StructError"
    using h [OF assms(1)] by (simp add: CAEntryHeader_from_buffer_def)
  moreover have f: "CAFilenameHeader_from_buffer b = Inl StructError"
    using h [OF assms(1)] by (simp add: CAFilenameHeader_from_buffer_def)
  moreover have p: "CAPayloadHeader_from_buffer bp2 = Inl StructError"
    using h [OF assms(6)] by (simp add: CAPayloadHeader_from_buffer_def)
  moreover have q: "CAEntryHeader_from_buffer bq1 = Inl StructError"
    using h [OF assms(9)] by (simp add: CAEntryHeader_from_buffer_def)
  moreover have "CAIndex_from_buffer bj = Inl StructError"
    using assms(10)
    by (intro index_header_error) (simp add: CAIndexHeader_from_buffer_def h remaining_def)
  moreover have "CaFormatIndex_from_buffer b = Inl StructError"
    using assms(1) by (simp add: CaFormatIndex_cases)
  moreover have empty: "CATar_from_bytes (BytesIO []) = Some (Inl StructError)"
    by (simp add: CATar_from_bytes_def CAArchive_cases CAEntry_cases remaining_def BytesIO_def)
  moreover have "parse_caidx rd s caidx_bytes = Some (Inl StructError)"
    using assms(7) empty by (simp add: parse_caidx_def)
  ultimately show ?thesis
    using h [OF assms(1)] entry_header_error [OF e] filename_header_error [OF f]
      payload_header_error [OF assms(4,5) p] file_entry_header_error [OF assms(8) q]
      later_file_error [OF assms(11,12,13)] parse_caidx_archive_error [OF assms(14,15,16)]
      parse_caidx_index_error [OF assms(17)]
    by simp
qed

text \<open>
  An instance: 11 bytes where a header is expected, an index that ends two bytes into
  the table header, an archive that ends three bytes into the entry of its file
  (\<open>example_entry_cut\<close>), 11 bytes into the payload header (\<open>example_cut\<close>) or
  three bytes after its first file (\<open>example_second_cut\<close>), and the index without
  chunks.
\<close>

theorem truncated_header_raises_witness:
  "MagicCAFormatHeader_from_buffer CA_FORMAT_PAYLOAD
     (BytesIO [21, 0, 0, 0, 0, 0, 0, 0, 0xc9, 0xff, 0xdc]) = Inl StructError
   \<and> CAIndex_from_buffer (BytesIO [21, 0, 0, 0, 0, 0, 0, 0, 0xc9, 0xff, 0xdc]) = Inl StructError
   \<and> CAIndex_from_buffer (BytesIO example_index_cut) = Inl StructError
   \<and> CATar_from_bytes (BytesIO [21, 0, 0, 0, 0, 0, 0, 0, 0xc9, 0xff, 0xdc])
       = Some (Inl StructError)
   \<and> files_loop \<lparr>buf = example_cut, pos = 64\<rparr> [] = Some (Inl StructError)
   \<and> CAFile_from_bytes \<lparr>buf = example_entry_cut, pos = 64\<rparr> = Some (Inl StructError)
   \<and> files_loop \<lparr>buf = example_entry_cut, pos = 64\<rparr> [] = Some (Inl StructError)
   \<and> CATar_from_bytes (BytesIO example_second_cut) = Some (Inl StructError)
   \<and> CATar_from_bytes (BytesIO []) = Some (Inl StructError)
   \<and> parse_caidx (slice_reader example_second_cut) 0 example_index_empty
       = Some (Inl StructError)
   \<and> parse_caidx (slice_reader example_second_cut) 0 example_index = Some (Inl StructError)
   \<and> parse_caidx (slice_reader example_second_cut) 0 example_index_cut
       = Some (Inl StructError)"
proof -
  let ?h = "BytesIO [21, 0, 0, 0, 0, 0, 0, 0, 0xc9, 0xff, 0xdc]"
  have h1: "remaining ?h < 16"
    by (simp add: remaining_def BytesIO_def)
  have h3: "remaining \<lparr>buf = example_index_cut, pos = 48\<rparr> < 16"
    by (simp add: remaining_def example_index_cut_def example_index_preamble_def)
  have h4: "CAFilename_from_buffer \<lparr>buf = example_cut, pos = 64\<rparr>
              = Some (Inr (Some (file_filename example_file), \<lparr>buf = example_cut, pos = 86\<rparr>))"
    using example_prefix_filename by (simp add: example_cut_def)
  have h5: "CAArchive_from_buffer \<lparr>buf = example_cut, pos = 86\<rparr>
              = Inr (\<lparr>entry = example_entry\<rparr>, \<lparr>buf = example_cut, pos = 150\<rparr>)"
    using example_prefix_entry by (simp add: example_cut_def)
  have h6: "remaining \<lparr>buf = example_cut, pos = 150\<rparr> < 16"
    by (simp add: remaining_def example_cut_def example_prefix_def)
  have h8: "CAFilename_from_buffer \<lparr>buf = example_entry_cut, pos = 64\<rparr>
              = Some (Inr (Some (file_filename example_file),
                           \<lparr>buf = example_entry_cut, pos = 86\<rparr>))"
    using example_head_filename by (simp add: example_entry_cut_def)
  have h9: "remaining \<lparr>buf = example_entry_cut, pos = 86\<rparr> < 16"
    by (simp add: remaining_def example_entry_cut_def example_head_def)
  have h10: "length (buf ?h) < 16"
    by (simp add: BytesIO_def)
  have h11: "CAArchive_from_buffer (BytesIO example_second_cut)
          = Inr (\<lparr>entry = example_entry\<rparr>, \<lparr>buf = example_second_cut, pos = 64\<rparr>)"
    using example_one_file_archive by (simp add: BytesIO_def example_second_cut_def)
  have h12: "loop_state 1 \<lparr>buf = example_second_cut, pos = 64\<rparr> []
          = Some (\<lparr>buf = example_second_cut, pos = 171\<rparr>, [example_file])"
    using example_one_file_state by (simp add: example_second_cut_def)
  have h15: "join_chunks (slice_reader example_second_cut) 0
           [\<lparr>sha = replicate 32 0xaa, offset = 0, length_c = 100\<rparr>,
            \<lparr>sha = replicate 32 0xbb, offset = 100, length_c = 87\<rparr>]
         = (Inr example_second_cut, Suc (Suc 0))"
    by (rule slice_reader_chunks) (simp add: example_second_cut_def length_example_one_file)
  from truncated_header_raises
    [OF h1 example_index_cut_preamble h3 h4 h5 h6 example_index_empty_value h8 h9 h10 h11 h12
      example_second_cut_loop example_index_value h15 example_second_cut_tar
      example_index_cut_value,
      where fs = "[]" and M = CA_FORMAT_PAYLOAD]
  show ?thesis
    by simp
qed

subsection \<open>Offsets and lengths of the chunks\<close>

text \<open>
  C4 (as the code has it). When the index decoder returns, the first chunk has offset
  0, each chunk begins where the one before it ends, and the lengths sum to the last
  cumulative offset of the table. The decoder does not compare the cumulative offsets
  of the table with each other: the offsets of the chunks are strictly increasing if
  and only if every length but the last is positive.
\<close>

theorem chunks_are_contiguous_from_zero:
  assumes "CAIndex_from_buffer b = Inr (chunks, b')"
  shows "(chunks = [] \<or> offset (hd chunks) = 0)
       \<and> (\<forall>i. Suc i < length chunks
              \<longrightarrow> offset (chunks ! Suc i) = offset (chunks ! i) + length_c (chunks ! i))
       \<and> sum_list (map length_c chunks)
           = (if chunks = [] then 0 else offset (last chunks) + length_c (last chunks))
       \<and> (if chunks = [] then 0 else offset (last chunks) + length_c (last chunks))
           = (if chunks = [] then 0 else u64_at (b\<lparr>pos := 64\<rparr>) (40 * (length chunks - 1)))
       \<and> (sorted_wrt (<) (map offset chunks)
            \<longleftrightarrow> (\<forall>i. Suc i < length chunks \<longrightarrow> 0 < length_c (chunks ! i)))"
proof -
  let ?n = "nat (num_chunks (int (length (buf b))))"
  note r = CAIndex_result [OF assms]
  from r(2) have c: "contiguous 0 chunks"
    by (simp add: table_chunks_contiguous)
  have "offset (last chunks) + length_c (last chunks)
          = u64_at (b\<lparr>pos := 64\<rparr>) (40 * (length chunks - 1))" if "chunks \<noteq> []"
  proof -
    from that r(2) have "0 < ?n" by auto
    then have "last (map (table_chunk (b\<lparr>pos := 64\<rparr>) 0) [0..<?n])
                 = table_chunk (b\<lparr>pos := 64\<rparr>) 0 (?n - 1)"
      by (simp add: last_map)
    with r(2) show ?thesis
      by (simp add: table_chunk_def)
  qed
  with contiguous_hd [OF c] contiguous_nth [OF c] contiguous_sum [OF c] contiguous_strict [OF c]
  show ?thesis
    by auto
qed

text \<open>
  An instance: the two chunks of \<open>example_index\<close>, whose lengths 100 and 87 sum to
  the last cumulative offset of the table, 187.
\<close>

theorem chunks_are_contiguous_from_zero_witness:
  "CAIndex_from_buffer (BytesIO example_index)
     = Inr ([\<lparr>sha = replicate 32 0xaa, offset = 0, length_c = 100\<rparr>,
             \<lparr>sha = replicate 32 0xbb, offset = 100, length_c = 87\<rparr>],
            \<lparr>buf = example_index, pos = 144\<rparr>)
   \<and> (187 :: int) = u64_at (BytesIO example_index\<lparr>pos := 64\<rparr>) 40"
  using chunks_are_contiguous_from_zero [OF example_index_value] example_index_value
  by simp

text \<open>
  The claim as it is written fails: the index decoder accepts a table whose cumulative
  offsets are 16, 8 and 40. The chunks have the offsets 0, 16 and 8, which are not
  increasing, and the second has the length \<open>-8\<close>.
\<close>

theorem offsets_not_increasing_counterexample:
  "CAIndex_from_buffer (BytesIO example_index_unordered)
     = Inr ([\<lparr>sha = replicate 32 0xaa, offset = 0, length_c = 16\<rparr>,
             \<lparr>sha = replicate 32 0xbb, offset = 16, length_c = - 8\<rparr>,
             \<lparr>sha = replicate 32 0xcc, offset = 8, length_c = 32\<rparr>],
            \<lparr>buf = example_index_unordered, pos = 184\<rparr>)
   \<and> \<not> sorted_wrt (<) [0, 16, 8 :: int]"
  by (simp add: example_index_unordered_value)

subsection \<open>The number of chunks\<close>

text \<open>
  C5. When the index decoder returns, \<^verbatim>\<open>num_chunks\<close> is
  \<open>(length - 32 - 56) div 40\<close> for the length of the whole buffer, the chunks are
  that many (none when the number is negative), chunk \<open>i\<close> is entry \<open>i\<close> of the table
  that starts at byte 64, after the index header, its four fields and the table header
  (8 bytes of cumulative offset, then 32 bytes of hash), and the cursor ends right after
  the last entry read.
\<close>

theorem num_chunks_entries_are_read:
  assumes "CAIndex_from_buffer b = Inr (chunks, b')"
  shows "num_chunks (int (length (buf b))) = (int (length (buf b)) - 32 - 56) div 40
       \<and> int (length chunks) = max 0 (num_chunks (int (length (buf b))))
       \<and> chunks = map (table_chunk (b\<lparr>pos := 64\<rparr>) 0) [0..<length chunks]
       \<and> (\<forall>c\<in>set chunks. length (sha c) = 32)
       \<and> b' = b\<lparr>pos := 64 + 40 * length chunks\<rparr>
       \<and> 64 + 40 * length chunks \<le> length (buf b)"
proof -
  let ?n = "nat (num_chunks (int (length (buf b))))"
  note r = CAIndex_result [OF assms]
  from r(2) have n: "length chunks = ?n"
    by simp
  have fit: "64 + 40 * ?n \<le> length (buf b)"
    using r(1) by (rule num_chunks_fit)
  have "length (sha (table_chunk (b\<lparr>pos := 64\<rparr>) 0 i)) = 32" if "i < ?n" for i
    using that fit by (simp add: table_chunk_def)
  with r(2) have "\<forall>c\<in>set chunks. length (sha c) = 32"
    by auto
  moreover have "num_chunks (int (length (buf b))) = (int (length (buf b)) - 32 - 56) div 40"
    by (simp add: num_chunks_def CA_HEADER_LEN_def CA_TABLE_MIN_LEN_def
        CA_TABLE_HEADER_LEN_def CA_TABLE_ENTRY_LEN_def)
  ultimately show ?thesis
    using r n fit by simp
qed

text \<open>
  An instance: \<open>example_index\<close> has 184 bytes, and \<open>(184 - 32 - 56) div 40 = 2\<close>
  entries are read.
\<close>

theorem num_chunks_entries_are_read_witness:
  "CAIndex_from_buffer (BytesIO example_index)
     = Inr ([\<lparr>sha = replicate 32 0xaa, offset = 0, length_c = 100\<rparr>,
             \<lparr>sha = replicate 32 0xbb, offset = 100, length_c = 87\<rparr>],
            \<lparr>buf = example_index, pos = 144\<rparr>)
   \<and> num_chunks (int (length example_index)) = (int (length example_index) - 32 - 56) div 40
   \<and> (2 :: int) = max 0 (num_chunks (int (length example_index)))
   \<and> 64 + 40 * 2 \<le> length example_index"
  using num_chunks_entries_are_read [OF example_index_value] example_index_value
  by (simp add: BytesIO_def length_example_index)

subsection \<open>The end of a file name\<close>

text \<open>
  C6 (as the code has it). After a file-name header (16 bytes with the file-name
  magic), let \<open>nm\<close> be the bytes that follow. If the first zero byte of \<open>nm\<close> is at
  index \<open>k < 256\<close>, the name is the \<open>k\<close> bytes before it and the cursor ends after the
  zero; if the first 256 bytes hold no zero, the name is these 256 bytes and the cursor
  ends after them. In both cases the result is what \<^verbatim>\<open>decode("utf-8")\<close> makes of the
  name: the decoded string, or \<^verbatim>\<open>UnicodeDecodeError\<close> when the bytes are not UTF-8.
\<close>

theorem filename_ends_at_terminator_or_cap:
  assumes "16 \<le> remaining b" and "u64_at b 8 = CA_FORMAT_FILENAME"
    and "nm = drop (pos b + 16) (buf b)"
    and "k \<le> length nm" and "0 \<notin> set (take k nm)"
    and "(k < CA_MAX_FILENAME_SIZE \<and> k < length nm \<and> nm ! k = 0) \<or> k = CA_MAX_FILENAME_SIZE"
  shows "CAFilename_from_buffer b =
           Some (case utf8_decode (take k nm) of
                   Inl e \<Rightarrow> Inl e
                 | Inr s \<Rightarrow>
                     Inr (Some \<lparr>filename_header =
                                  \<lparr>size_h = u64_at b 0, type_h = CA_FORMAT_FILENAME\<rparr>,
                                filename = s\<rparr>,
                          advance b (16 + (if k < CA_MAX_FILENAME_SIZE then k + 1 else k))))"
proof -
  let ?b1 = "advance b 16"
  have nm: "nm = drop (pos ?b1) (buf ?b1)"
    using assms(3) by simp
  have len: "length nm = remaining ?b1"
    using assms(3) by (simp add: remaining_def)
  have "\<forall>i<k. nm ! i \<noteq> 0"
    using assms(4,5) by (auto simp: in_set_conv_nth)
  then have nz: "\<forall>i<k. buf ?b1 ! (pos ?b1 + i) \<noteq> 0"
    using assms(3,4) by (simp add: add.assoc)
  have loop: "filename_loop ?b1 []
                = Some (take k nm, advance b (16 + (if k < CA_MAX_FILENAME_SIZE then k + 1 else k)))"
  proof (cases "k < CA_MAX_FILENAME_SIZE")
    case True
    with assms(6) have t: "k < length nm" "nm ! k = 0"
      by auto
    have "filename_loop ?b1 [] = Some ([] @ take k (drop (pos ?b1) (buf ?b1)), advance ?b1 (k + 1))"
    proof (rule filename_loop_terminator)
      show "k < remaining ?b1" using t(1) len by simp
      show "buf ?b1 ! (pos ?b1 + k) = 0"
        using t assms(3) by (simp add: add.assoc)
      show "\<forall>i<k. buf ?b1 ! (pos ?b1 + i) \<noteq> 0" by (rule nz)
      show "length ([] :: byte list) + k < CA_MAX_FILENAME_SIZE" using True by simp
    qed
    with True nm show ?thesis by simp
  next
    case False
    with assms(6) have k: "k = CA_MAX_FILENAME_SIZE"
      by auto
    have "filename_loop ?b1 [] = Some ([] @ take k (drop (pos ?b1) (buf ?b1)), advance ?b1 k)"
    proof (rule filename_loop_cap)
      show "k \<le> remaining ?b1" using assms(4) len by simp
      show "\<forall>i<k. buf ?b1 ! (pos ?b1 + i) \<noteq> 0" by (rule nz)
      show "length ([] :: byte list) + k = CA_MAX_FILENAME_SIZE" using k by simp
    qed
    with False nm show ?thesis by simp
  qed
  have "u64_at b 8 \<noteq> CA_FORMAT_GOODBYE"
    using assms(2) by (simp add: magic_defs)
  with assms(1,2) loop show ?thesis
    by (simp add: CAFilename_cases split: sum.splits)
qed

text \<open>
  Two instances: the name \<^verbatim>\<open>a.txt\<close> before a zero byte, and 300 letters with no
  zero byte, of which 256 are the name.
\<close>

theorem filename_ends_at_terminator_or_cap_witness:
  "CAFilename_from_buffer
     (BytesIO ([22, 0, 0, 0, 0, 0, 0, 0, 0x0b, 0x1f, 0x16, 0xb3, 0xbc, 0x6e, 0xbb, 0x6d]
               @ [0x61, 0x2e, 0x74, 0x78, 0x74, 0, 0x62]))
   = Some (Inr (Some \<lparr>filename_header = \<lparr>size_h = 22, type_h = CA_FORMAT_FILENAME\<rparr>,
                      filename = [97, 46, 116, 120, 116]\<rparr>,
                \<lparr>buf = [22, 0, 0, 0, 0, 0, 0, 0, 0x0b, 0x1f, 0x16, 0xb3, 0xbc, 0x6e, 0xbb, 0x6d]
                        @ [0x61, 0x2e, 0x74, 0x78, 0x74, 0, 0x62],
                 pos = 22\<rparr>))
   \<and> CAFilename_from_buffer
     (BytesIO ([0, 0, 0, 0, 0, 0, 0, 0, 0x0b, 0x1f, 0x16, 0xb3, 0xbc, 0x6e, 0xbb, 0x6d]
               @ replicate 300 0x61))
   = Some (Inr (Some \<lparr>filename_header = \<lparr>size_h = 0, type_h = CA_FORMAT_FILENAME\<rparr>,
                      filename = replicate 256 97\<rparr>,
                \<lparr>buf = [0, 0, 0, 0, 0, 0, 0, 0, 0x0b, 0x1f, 0x16, 0xb3, 0xbc, 0x6e, 0xbb, 0x6d]
                        @ replicate 300 0x61,
                 pos = 272\<rparr>))"
proof -
  let ?a = "BytesIO ([22, 0, 0, 0, 0, 0, 0, 0, 0x0b, 0x1f, 0x16, 0xb3, 0xbc, 0x6e, 0xbb, 0x6d]
               @ [0x61, 0x2e, 0x74, 0x78, 0x74, 0, 0x62])"
  let ?c = "BytesIO ([0, 0, 0, 0, 0, 0, 0, 0, 0x0b, 0x1f, 0x16, 0xb3, 0xbc, 0x6e, 0xbb, 0x6d]
               @ replicate 300 0x61)"
  have a1: "16 \<le> remaining ?a" by (simp add: remaining_def BytesIO_def)
  have a2: "u64_at ?a 8 = CA_FORMAT_FILENAME" by (simp add: u64_at_def BytesIO_def magic_defs)
  have a3: "[0x61, 0x2e, 0x74, 0x78, 0x74, 0, 0x62] = drop (pos ?a + 16) (buf ?a)"
    by (simp add: BytesIO_def)
  have a4: "5 \<le> length [0x61, 0x2e, 0x74, 0x78, 0x74, 0, 0x62 :: byte]" by simp
  have a5: "0 \<notin> set (take 5 [0x61, 0x2e, 0x74, 0x78, 0x74, 0, 0x62 :: byte])"
    by simp
  have a6: "(5 < CA_MAX_FILENAME_SIZE \<and> 5 < length [0x61, 0x2e, 0x74, 0x78, 0x74, 0, 0x62 :: byte]
              \<and> [0x61, 0x2e, 0x74, 0x78, 0x74, 0, 0x62 :: byte] ! 5 = 0) \<or> 5 = CA_MAX_FILENAME_SIZE"
    by (simp add: CA_MAX_FILENAME_SIZE_def)
  have c1: "16 \<le> remaining ?c" by (simp add: remaining_def BytesIO_def)
  have c2: "u64_at ?c 8 = CA_FORMAT_FILENAME" by (simp add: u64_at_def BytesIO_def magic_defs)
  have c3: "replicate 300 0x61 = drop (pos ?c + 16) (buf ?c)"
    by (simp add: BytesIO_def)
  have c4: "256 \<le> length (replicate 300 (0x61 :: byte))" by simp
  have c5: "0 \<notin> set (take 256 (replicate 300 (0x61 :: byte)))"
    by simp
  have c6: "(256 < CA_MAX_FILENAME_SIZE \<and> 256 < length (replicate 300 (0x61 :: byte))
              \<and> replicate 300 (0x61 :: byte) ! 256 = 0) \<or> 256 = CA_MAX_FILENAME_SIZE"
    by (simp add: CA_MAX_FILENAME_SIZE_def)
  have u: "utf8_decode (take 256 (replicate 300 (0x61 :: byte))) = Inr (replicate 256 97)"
    using utf8_decode_ascii [of "0x61" 256 "[]"] by simp
  from filename_ends_at_terminator_or_cap [OF a1 a2 a3 a4 a5 a6]
    filename_ends_at_terminator_or_cap [OF c1 c2 c3 c4 c5 c6] u
  show ?thesis
    by (simp add: push_def u64_at_def BytesIO_def advance_def CA_MAX_FILENAME_SIZE_def)
qed

text \<open>
  The claim as it is written fails: the name \<^verbatim>\<open>b'\xff'\<close> before a terminator,
  and a name of 255 letters followed by a character of two bytes that the cap of 256
  bytes cuts in two, both raise \<^verbatim>\<open>UnicodeDecodeError\<close>.
\<close>

theorem filename_not_utf8_counterexample:
  "CAFilename_from_buffer
     (BytesIO ([18, 0, 0, 0, 0, 0, 0, 0, 0x0b, 0x1f, 0x16, 0xb3, 0xbc, 0x6e, 0xbb, 0x6d]
               @ [0xff, 0]))
   = Some (Inl UnicodeDecodeError)
   \<and> CAFilename_from_buffer
     (BytesIO ([0, 0, 0, 0, 0, 0, 0, 0, 0x0b, 0x1f, 0x16, 0xb3, 0xbc, 0x6e, 0xbb, 0x6d]
               @ replicate 255 0x61 @ [0xc3, 0xa9, 0]))
   = Some (Inl UnicodeDecodeError)"
proof -
  let ?a = "BytesIO ([18, 0, 0, 0, 0, 0, 0, 0, 0x0b, 0x1f, 0x16, 0xb3, 0xbc, 0x6e, 0xbb, 0x6d]
               @ [0xff, 0])"
  let ?c = "BytesIO ([0, 0, 0, 0, 0, 0, 0, 0, 0x0b, 0x1f, 0x16, 0xb3, 0xbc, 0x6e, 0xbb, 0x6d]
               @ replicate 255 0x61 @ [0xc3, 0xa9, 0])"
  have "filename_loop (advance ?a 16) []
          = Some ([] @ take 1 (drop (pos (advance ?a 16)) (buf (advance ?a 16))),
                  advance (advance ?a 16) (1 + 1))"
    by (rule filename_loop_terminator)
      (simp_all add: remaining_def BytesIO_def CA_MAX_FILENAME_SIZE_def)
  then have la: "filename_loop (advance ?a 16) [] = Some ([0xff], advance ?a 18)"
    by (simp add: BytesIO_def)
  have "filename_loop (advance ?c 16) []
          = Some ([] @ take 256 (drop (pos (advance ?c 16)) (buf (advance ?c 16))),
                  advance (advance ?c 16) 256)"
    by (rule filename_loop_cap)
      (auto simp: remaining_def BytesIO_def CA_MAX_FILENAME_SIZE_def nth_append)
  then have lc: "filename_loop (advance ?c 16) []
                   = Some (replicate 255 0x61 @ [0xc3], advance ?c 272)"
    by (simp add: BytesIO_def)
  have u: "utf8_decode (replicate 255 0x61 @ [0xc3]) = Inl UnicodeDecodeError"
    by (simp add: utf8_decode_ascii)
  have h: "16 \<le> remaining ?a" "u64_at ?a 8 = CA_FORMAT_FILENAME"
    "16 \<le> remaining ?c" "u64_at ?c 8 = CA_FORMAT_FILENAME"
    by (simp_all add: remaining_def u64_at_def BytesIO_def magic_defs)
  have ne: "CA_FORMAT_FILENAME \<noteq> CA_FORMAT_GOODBYE"
    by (simp add: magic_defs)
  have "CAFilename_from_buffer ?a = Some (Inl UnicodeDecodeError)"
    using h(1,2) ne la by (simp add: CAFilename_cases)
  moreover have "CAFilename_from_buffer ?c = Some (Inl UnicodeDecodeError)"
    using h(3,4) ne lc by (simp add: CAFilename_cases u)
  ultimately show ?thesis by simp
qed

subsection \<open>Reassembly in the order of the table\<close>

text \<open>
  C7. When reassembly returns the bytes \<open>d\<close>, the chunk reader has been called once
  for each chunk of the index, in the order of the table, \<open>d\<close> is what the calls
  returned, concatenated in that order, and \<^verbatim>\<open>parse_caidx\<close> decodes the archive
  from \<open>d\<close>. If each call returned as many bytes as the length of its chunk, the
  length of \<open>d\<close> is the sum of the lengths of the chunks.
\<close>

theorem reassembly_reads_chunks_in_table_order:
  assumes "CAIndex_from_buffer (BytesIO caidx_bytes) = Inr (chunks, bi)"
    and "join_chunks (traced rd) (s, []) chunks = (Inr d, (s', calls))"
  shows "map fst calls = chunks \<and> d = concat (map snd calls)
       \<and> join_chunks rd s chunks = (Inr d, s')
       \<and> parse_caidx rd s caidx_bytes
           = (case CATar_from_bytes (BytesIO d) of
                None \<Rightarrow> None
              | Some (Inl e) \<Rightarrow> Some (Inl e)
              | Some (Inr (tar, b')) \<Rightarrow> Some (Inr tar))
       \<and> ((\<forall>(c, x)\<in>set calls. int (length x) = length_c c)
            \<longrightarrow> int (length d) = sum_list (map length_c chunks))"
proof -
  from join_chunks_traced [OF assms(2)] have
    r: "map fst calls = chunks" "d = concat (map snd calls)"
      "join_chunks rd s chunks = (Inr d, s')"
    by auto
  from r(3) assms(1) have "parse_caidx rd s caidx_bytes
           = (case CATar_from_bytes (BytesIO d) of
                None \<Rightarrow> None
              | Some (Inl e) \<Rightarrow> Some (Inl e)
              | Some (Inr (tar, b')) \<Rightarrow> Some (Inr tar))"
    by (simp add: parse_caidx_def split: option.splits sum.splits)
  with r length_concat_chunks [of calls] show ?thesis
    by simp
qed

text \<open>
  An instance: \<open>example_index\<close> and the reader of its two chunks give the bytes of
  \<open>example_archive\<close>, 100 + 87 of them, and the archive with the one file.
\<close>

theorem reassembly_reads_chunks_in_table_order_witness:
  "join_chunks example_reader 0
     [\<lparr>sha = replicate 32 0xaa, offset = 0, length_c = 100\<rparr>,
      \<lparr>sha = replicate 32 0xbb, offset = 100, length_c = 87\<rparr>]
     = (Inr example_archive, 2)
   \<and> parse_caidx example_reader 0 example_index
     = Some (Inr \<lparr>archive = \<lparr>entry = example_entry\<rparr>, files = [example_file]\<rparr>)
   \<and> int (length example_archive) = 100 + 87"
proof -
  let ?c1 = "\<lparr>sha = replicate 32 0xaa, offset = 0, length_c = 100\<rparr>"
  let ?c2 = "\<lparr>sha = replicate 32 0xbb, offset = 100, length_c = 87\<rparr>"
  have len: "\<forall>(c, x)\<in>set [(?c1, take 100 example_archive), (?c2, drop 100 example_archive)].
               int (length x) = length_c c"
    by (simp add: length_example_archive)
  from reassembly_reads_chunks_in_table_order [OF example_index_value example_reader_chunks] len
  show ?thesis
    by (simp add: example_archive_tar)
qed

subsection \<open>The data of a file\<close>

text \<open>
  C8. The files of a decoded archive hold, in their order, the payloads of the archive's
  bytes: the payload header of each file is where the file-name header, the name and
  the entry before it end, it carries the payload magic, and the data of the record
  are exactly the length field of that header less 16 bytes, taken right after the
  header; the next file begins right after them. (A read that the end of the buffer
  cuts short leaves the cursor at the end, where the next header cannot be read, so no
  archive is returned in that case.)
\<close>

theorem file_data_is_payload_size_minus_16:
  assumes "CATar_from_bytes b = Some (Inr (tar, b'))"
  shows "list_all2 (payload_at (buf b))
           (file_positions (buf b) (pos b + 64) (length (files tar))) (files tar)"
proof -
  from assms obtain ar b1 fs where
    ar: "CAArchive_from_buffer b = Inr (ar, b1)"
    and loop: "files_loop b1 [] = Some (Inr (fs, b'))"
    and tar: "tar = \<lparr>archive = ar, files = fs\<rparr>"
    by (auto simp: CATar_from_bytes_def split: sum.splits option.splits)
  from CAArchive_result [OF ar] have "buf b1 = buf b" "pos b1 = pos b + 64"
    by simp_all
  with files_loop_result [OF loop] tar show ?thesis
    by simp
qed

text \<open>
  An instance: the two files of \<open>example_two_files\<close>. Their payload headers are at the
  bytes 150 and 253 and declare 21 and 19 bytes; the data are the 5 and the 3 bytes
  after them.
\<close>

theorem file_data_is_payload_size_minus_16_witness:
  "CATar_from_bytes (BytesIO example_two_files)
     = Some (Inr (\<lparr>archive = \<lparr>entry = example_entry\<rparr>, files = [example_file, example_file_b]\<rparr>,
                  \<lparr>buf = example_two_files, pos = 288\<rparr>))
   \<and> file_positions example_two_files 64 (length [example_file, example_file_b]) = [150, 253]
   \<and> payload_at example_two_files 150 example_file
   \<and> payload_at example_two_files 253 example_file_b"
proof -
  from file_data_is_payload_size_minus_16 [OF example_two_files_tar]
  have "list_all2 (payload_at example_two_files)
          (file_positions example_two_files 64 (length [example_file, example_file_b]))
          [example_file, example_file_b]"
    by (simp add: BytesIO_def del: file_positions.simps)
  then have "payload_at example_two_files 150 example_file
      \<and> payload_at example_two_files 253 example_file_b"
    by (simp only: example_two_files_positions list_all2_Cons list.rel_inject list_all2_Nil2)
  with example_two_files_tar example_two_files_positions show ?thesis
    by (simp del: file_positions.simps)
qed

subsection \<open>The cursor after a header\<close>

text \<open>
  C9. Whenever the header decoder returns, with a header or with \<open>None\<close> for the
  goodbye magic, the buffer it returns is the one it was given with the cursor 16 bytes
  further; \<open>None\<close> is returned exactly for the goodbye magic.
\<close>

theorem header_advances_cursor_by_16:
  assumes "MagicCAFormatHeader_from_buffer M b = Inr (r, b')"
  shows "pos b' = pos b + 16 \<and> buf b' = buf b \<and> b' = advance b 16
       \<and> (r = None) = (u64_at b 8 = CA_FORMAT_GOODBYE)"
  using assms by (auto simp: header_cases split: if_splits)

text \<open>
  Two instances with the cursor at byte 2: a header with the goodbye magic, and a
  payload header.
\<close>

theorem header_advances_cursor_by_16_witness:
  "MagicCAFormatHeader_from_buffer CA_FORMAT_PAYLOAD
     \<lparr>buf = [0, 0, 0, 0, 0, 0, 0, 0, 0, 0, 0x03, 0xc4, 0x27, 0x83, 0x5e, 0x5c, 0xd3, 0xdf, 7],
      pos = 2\<rparr>
   = Inr (None,
       advance
         \<lparr>buf = [0, 0, 0, 0, 0, 0, 0, 0, 0, 0, 0x03, 0xc4, 0x27, 0x83, 0x5e, 0x5c, 0xd3, 0xdf, 7],
          pos = 2\<rparr> 16)
   \<and> MagicCAFormatHeader_from_buffer CA_FORMAT_PAYLOAD
     \<lparr>buf = [0, 0, 21, 0, 0, 0, 0, 0, 0, 0, 0xc9, 0xff, 0xdc, 0xd6, 0x93, 0x1d, 0x9e, 0x8b, 7],
      pos = 2\<rparr>
   = Inr (Some \<lparr>size_h = 21, type_h = CA_FORMAT_PAYLOAD\<rparr>,
       advance
         \<lparr>buf = [0, 0, 21, 0, 0, 0, 0, 0, 0, 0, 0xc9, 0xff, 0xdc, 0xd6, 0x93, 0x1d, 0x9e, 0x8b, 7],
          pos = 2\<rparr> 16)"
proof -
  let ?g = "\<lparr>buf = [0, 0, 0, 0, 0, 0, 0, 0, 0, 0, 0x03, 0xc4, 0x27, 0x83, 0x5e, 0x5c, 0xd3, 0xdf, 7],
             pos = 2\<rparr> :: bytesio"
  let ?p = "\<lparr>buf = [0, 0, 21, 0, 0, 0, 0, 0, 0, 0, 0xc9, 0xff, 0xdc, 0xd6, 0x93, 0x1d, 0x9e, 0x8b, 7],
             pos = 2\<rparr> :: bytesio"
  have g: "MagicCAFormatHeader_from_buffer CA_FORMAT_PAYLOAD ?g = Inr (None, ?g\<lparr>pos := 18\<rparr>)"
    by (simp add: MagicCAFormatHeader_from_buffer_def read_def unpack_QQ_def field_def
        CA_TABLE_HEADER_LEN_def magic_defs Let_def)
  have p: "MagicCAFormatHeader_from_buffer CA_FORMAT_PAYLOAD ?p
             = Inr (Some \<lparr>size_h = 21, type_h = CA_FORMAT_PAYLOAD\<rparr>, ?p\<lparr>pos := 18\<rparr>)"
    by (simp add: MagicCAFormatHeader_from_buffer_def read_def unpack_QQ_def field_def
        CA_TABLE_HEADER_LEN_def magic_defs Let_def)
  from header_advances_cursor_by_16 [OF g] have "?g\<lparr>pos := 18\<rparr> = advance ?g 16"
    by blast
  moreover from header_advances_cursor_by_16 [OF p] have "?p\<lparr>pos := 18\<rparr> = advance ?p 16"
    by blast
  ultimately show ?thesis
    using g p by simp
qed

subsection \<open>The goodbye magic where an entry is expected\<close>

text \<open>
  C10. Where an entry header is read (for the archive or for a file) and the 16 bytes
  carry the goodbye magic, with the 48 bytes of the metadata after them: the header
  decoder returns \<open>None\<close>, the entry decoder does not fail and builds an entry whose
  header is \<open>None\<close> and whose six fields are the 48 bytes that follow, the cursor is
  64 bytes further, and the archive decoder goes on with the loop over the files.
\<close>

theorem goodbye_at_entry_position_is_swallowed:
  assumes "64 \<le> remaining b" and "u64_at b 8 = CA_FORMAT_GOODBYE"
  shows "CAEntryHeader_from_buffer b = Inr (None, advance b 16)
       \<and> CAEntry_from_buffer b =
           Inr (\<lparr>entry_header = None, feature_flags = u64_at b 16, mode = u64_at b 24,
                  flags = u64_at b 32, uid = u64_at b 40, gid = u64_at b 48,
                  mtime = u64_at b 56\<rparr>, advance b 64)
       \<and> CAArchive_from_buffer b =
           Inr (\<lparr>entry = \<lparr>entry_header = None, feature_flags = u64_at b 16,
                  mode = u64_at b 24, flags = u64_at b 32, uid = u64_at b 40,
                  gid = u64_at b 48, mtime = u64_at b 56\<rparr>\<rparr>, advance b 64)
       \<and> CATar_from_bytes b =
           (case files_loop (advance b 64) [] of
              None \<Rightarrow> None
            | Some (Inl e) \<Rightarrow> Some (Inl e)
            | Some (Inr (fs, b2)) \<Rightarrow>
                Some (Inr (\<lparr>archive = \<lparr>entry = \<lparr>entry_header = None,
                  feature_flags = u64_at b 16, mode = u64_at b 24, flags = u64_at b 32,
                  uid = u64_at b 40, gid = u64_at b 48, mtime = u64_at b 56\<rparr>\<rparr>,
                  files = fs\<rparr>, b2)))"
  using assms
  by (simp add: CAEntryHeader_from_buffer_def header_cases CAEntry_cases CAArchive_cases
      CATar_from_bytes_def)

text \<open>
  An instance: the goodbye magic and 48 bytes after it, read as an entry.
\<close>

theorem goodbye_at_entry_position_is_swallowed_witness:
  "CAEntry_from_buffer
     (BytesIO ([0, 0, 0, 0, 0, 0, 0, 0, 0x03, 0xc4, 0x27, 0x83, 0x5e, 0x5c, 0xd3, 0xdf]
               @ [1, 0, 0, 0, 0, 0, 0, 0] @ [2, 0, 0, 0, 0, 0, 0, 0] @ [3, 0, 0, 0, 0, 0, 0, 0]
               @ [4, 0, 0, 0, 0, 0, 0, 0] @ [5, 0, 0, 0, 0, 0, 0, 0] @ [6, 1, 0, 0, 0, 0, 0, 0]))
   = Inr (\<lparr>entry_header = None, feature_flags = 1, mode = 2, flags = 3, uid = 4, gid = 5,
           mtime = 262\<rparr>,
          \<lparr>buf = [0, 0, 0, 0, 0, 0, 0, 0, 0x03, 0xc4, 0x27, 0x83, 0x5e, 0x5c, 0xd3, 0xdf]
               @ [1, 0, 0, 0, 0, 0, 0, 0] @ [2, 0, 0, 0, 0, 0, 0, 0] @ [3, 0, 0, 0, 0, 0, 0, 0]
               @ [4, 0, 0, 0, 0, 0, 0, 0] @ [5, 0, 0, 0, 0, 0, 0, 0] @ [6, 1, 0, 0, 0, 0, 0, 0],
           pos = 64\<rparr>)"
proof -
  let ?b = "BytesIO ([0, 0, 0, 0, 0, 0, 0, 0, 0x03, 0xc4, 0x27, 0x83, 0x5e, 0x5c, 0xd3, 0xdf]
               @ [1, 0, 0, 0, 0, 0, 0, 0] @ [2, 0, 0, 0, 0, 0, 0, 0] @ [3, 0, 0, 0, 0, 0, 0, 0]
               @ [4, 0, 0, 0, 0, 0, 0, 0] @ [5, 0, 0, 0, 0, 0, 0, 0] @ [6, 1, 0, 0, 0, 0, 0, 0])"
  have h1: "64 \<le> remaining ?b"
    by (simp add: remaining_def BytesIO_def)
  have h2: "u64_at ?b 8 = CA_FORMAT_GOODBYE"
    by (simp add: u64_at_def BytesIO_def magic_defs)
  from goodbye_at_entry_position_is_swallowed [OF h1 h2]
  show ?thesis
    by (simp add: u64_at_def BytesIO_def advance_def)
qed

end
